theory Spec2Isabelle
  imports Main "HOL-Library.AList"
begin

section \<open>Strings of the source language\<close>

text \<open>
  A string of the source is a sequence of code units. The model takes \<^typ>\<open>string\<close> with
  each \<^typ>\<open>char\<close> read as the code unit of that number, so it covers the strings whose code
  units lie in U+0000 .. U+00FF. On that range the functions below are the ones of the
  source language: \<open>trim\<close> removes the white space and line terminators U+0009 .. U+000D,
  U+0020 and U+00A0; \<open>toLowerCase\<close> maps A .. Z and the capital letters U+00C0 .. U+00DE
  (U+00D7, the multiplication sign, apart) to the letter 32 places further.
\<close>

definition is_ws :: "char \<Rightarrow> bool" where
  "is_ws c = (let n = (of_char c :: nat) in (9 \<le> n \<and> n \<le> 13) \<or> n = 32 \<or> n = 160)"

definition lower_char :: "char \<Rightarrow> char" where
  "lower_char c =
     (let n = (of_char c :: nat) in
      if (65 \<le> n \<and> n \<le> 90) \<or> (192 \<le> n \<and> n \<le> 222 \<and> n \<noteq> 215)
      then char_of (n + 32) else c)"

definition trim :: "string \<Rightarrow> string" where
  "trim s = rev (dropWhile is_ws (rev (dropWhile is_ws s)))"

definition toLowerCase :: "string \<Rightarrow> string" where
  "toLowerCase s = map lower_char s"

definition startsWith :: "string \<Rightarrow> string \<Rightarrow> bool" where
  "startsWith s p = (take (length p) s = p)"

definition endsWith :: "string \<Rightarrow> string \<Rightarrow> bool" where
  "endsWith s p = (length p \<le> length s \<and> drop (length s - length p) s = p)"

section \<open>Channel names: classification, normalization, formatting\<close>

definition isChannelName :: "string \<Rightarrow> bool" where
  "isChannelName input =
     (if input = [] then False
      else if startsWith input ''#'' then True
      else if startsWith input ''0x'' then False
      else True)"

definition normalizeChannelName :: "string \<Rightarrow> string" where
  "normalizeChannelName name =
     (let normalized = toLowerCase (trim name) in
      if startsWith normalized ''#'' then drop 1 normalized else normalized)"

definition formatChannelName :: "string \<Rightarrow> string" where
  "formatChannelName name = ''#'' @ normalizeChannelName name"

section \<open>Errors\<close>

text \<open>
  Every failure of the source is a thrown \<open>Error\<close> carrying a message. The model keeps the
  place that threw it as the constructor and the values the message interpolates as its
  arguments; \<open>message\<close> gives the text. \<open>ServiceError\<close> is an error raised by the external
  naming client, which the resolver lets through.
\<close>

datatype error =
    NameNotFound string
  | AliasConflict string string
  | ResolutionFailed string
  | ServiceError string

fun message :: "error \<Rightarrow> string" where
  "message (NameNotFound formatted) = ''Channel name not found: '' @ formatted"
| "message (AliasConflict formatted existingId) =
     ''Channel name '' @ formatted @ '' is already registered to '' @ existingId"
| "message (ResolutionFailed name) = ''Failed to resolve SuiNS name: '' @ name"
| "message (ServiceError text) = text"

section \<open>The in-memory registry\<close>

text \<open>
  A \<open>Map<string, string>\<close> of the source is an association list in insertion order:
  \<open>set\<close> overwrites the value of a present key in place and appends an absent one,
  \<open>delete\<close> removes the key, \<open>size\<close> is the length. A value read from a map is a
  \<^typ>\<open>string option\<close>, \<open>None\<close> for \<open>undefined\<close>; the source tests such values for
  truthiness, and the empty string is falsy as \<open>undefined\<close> is.
\<close>

type_synonym string_map = "(string \<times> string) list"

abbreviation Map_get :: "string_map \<Rightarrow> string \<Rightarrow> string option" where
  "Map_get m k \<equiv> map_of m k"

abbreviation Map_set :: "string_map \<Rightarrow> string \<Rightarrow> string \<Rightarrow> string_map" where
  "Map_set m k v \<equiv> AList.update k v m"

abbreviation Map_delete :: "string_map \<Rightarrow> string \<Rightarrow> string_map" where
  "Map_delete m k \<equiv> AList.delete k m"

definition truthy :: "string option \<Rightarrow> bool" where
  "truthy v = (case v of None \<Rightarrow> False | Some s \<Rightarrow> s \<noteq> [])"

definition text_of :: "string option \<Rightarrow> string" where
  \<comment> \<open>the text a template literal interpolates\<close>
  "text_of v = (case v of None \<Rightarrow> ''undefined'' | Some s \<Rightarrow> s)"

record LocalChannelRegistry =
  nameToId :: string_map
  idToName :: string_map

definition empty_registry :: LocalChannelRegistry where
  "empty_registry = \<lparr>nameToId = [], idToName = []\<rparr>"

definition set_entry :: "LocalChannelRegistry \<Rightarrow> string \<times> string \<Rightarrow> LocalChannelRegistry" where
  \<comment> \<open>the body of the loops of the constructor and of \<open>import\<close>\<close>
  "set_entry r entry =
     (case entry of (name, channelId) \<Rightarrow>
        let normalized = normalizeChannelName name in
        \<lparr>nameToId = Map_set (nameToId r) normalized channelId,
         idToName = Map_set (idToName r) channelId normalized\<rparr>)"

definition Local_new :: "string_map option \<Rightarrow> LocalChannelRegistry" where
  \<comment> \<open>the constructor; the initial mappings are given as their list of entries\<close>
  "Local_new initialMappings =
     (case initialMappings of
        None \<Rightarrow> empty_registry
      | Some entries \<Rightarrow> foldl set_entry empty_registry entries)"

definition Local_resolve :: "LocalChannelRegistry \<Rightarrow> string \<Rightarrow> error + string" where
  "Local_resolve r nameOrId =
     (if \<not> isChannelName nameOrId then Inr nameOrId
      else
        (case Map_get (nameToId r) (normalizeChannelName nameOrId) of
           None \<Rightarrow> Inl (NameNotFound (formatChannelName nameOrId))
         | Some channelId \<Rightarrow>
             if channelId = [] then Inl (NameNotFound (formatChannelName nameOrId))
             else Inr channelId))"

definition Local_reverseLookup :: "LocalChannelRegistry \<Rightarrow> string \<Rightarrow> string option" where
  "Local_reverseLookup r channelId =
     (case Map_get (idToName r) channelId of
        None \<Rightarrow> None
      | Some name \<Rightarrow> if name = [] then None else Some (formatChannelName name))"

definition Local_register ::
  "LocalChannelRegistry \<Rightarrow> string \<Rightarrow> string \<Rightarrow> error + LocalChannelRegistry" where
  "Local_register r name channelId =
     (let normalized = normalizeChannelName name;
          existingId = Map_get (nameToId r) normalized
      in
        if truthy existingId \<and> existingId \<noteq> Some channelId
        then Inl (AliasConflict (formatChannelName name) (text_of existingId))
        else
          let existingName = Map_get (idToName r) channelId;
              names =
                (if truthy existingName \<and> existingName \<noteq> Some normalized
                 then Map_delete (nameToId r) (text_of existingName)
                 else nameToId r)
          in Inr \<lparr>nameToId = Map_set names normalized channelId,
                   idToName = Map_set (idToName r) channelId normalized\<rparr>)"

definition Local_unregister :: "LocalChannelRegistry \<Rightarrow> string \<Rightarrow> LocalChannelRegistry" where
  "Local_unregister r name =
     (let normalized = normalizeChannelName name in
      case Map_get (nameToId r) normalized of
        None \<Rightarrow> r
      | Some channelId \<Rightarrow>
          if channelId = [] then r
          else \<lparr>nameToId = Map_delete (nameToId r) normalized,
                idToName = Map_delete (idToName r) channelId\<rparr>)"

definition Local_list :: "LocalChannelRegistry \<Rightarrow> string_map" where
  "Local_list r =
     foldl (\<lambda>result (name, channelId). Map_set result (formatChannelName name) channelId)
       [] (nameToId r)"

definition Local_export :: "LocalChannelRegistry \<Rightarrow> string_map" where
  \<comment> \<open>the entries of the exported record, in the order they are written; the source
      writes them into a plain object, which drops the key \<open>__proto__\<close> and lists
      integer keys first: aliases of those forms are outside the model of \<open>export\<close>\<close>
  "Local_export r = nameToId r"

definition Local_import ::
  "LocalChannelRegistry \<Rightarrow> string_map \<Rightarrow> bool \<Rightarrow> LocalChannelRegistry" where
  \<comment> \<open>\<open>data\<close> is the list \<open>Object.entries\<close> gives for the imported record\<close>
  "Local_import r data merge =
     foldl set_entry (if merge then r else empty_registry) data"

definition Local_clear :: "LocalChannelRegistry \<Rightarrow> LocalChannelRegistry" where
  "Local_clear r = empty_registry"

definition Local_size :: "LocalChannelRegistry \<Rightarrow> nat" where
  "Local_size r = length (nameToId r)"

text \<open>
  The two maps are exact inverses: every pair of the alias map is in the id map the other
  way round, and the maps have the same size.
\<close>

definition inverse_maps :: "LocalChannelRegistry \<Rightarrow> bool" where
  "inverse_maps r =
     (list_all (\<lambda>(alias, channelId). Map_get (idToName r) channelId = Some alias) (nameToId r)
      \<and> length (nameToId r) = length (idToName r))"

section \<open>Batches of promises\<close>

text \<open>
  \<open>Promise.all\<close> fulfils with the values of its promises in the order of the array when all
  of them fulfil, and rejects with the reason of the promise that rejects first in time.
  The outcome of each promise is \<open>Inl\<close> (rejected) or \<open>Inr\<close> (fulfilled); \<open>order\<close> lists
  indices in the order their promises settle, and the promises it leaves out settle after
  those, in the order of the array.
\<close>

definition first_rejected :: "nat list \<Rightarrow> ('e + 'a) list \<Rightarrow> 'e option" where
  "first_rejected order ps =
     (case filter (\<lambda>i. i < length ps \<and> isl (ps ! i)) order of
        [] \<Rightarrow> None
      | i # _ \<Rightarrow> Some (projl (ps ! i)))"

definition Promise_all :: "nat list \<Rightarrow> ('e + 'a) list \<Rightarrow> 'e + 'a list" where
  "Promise_all order ps =
     (case first_rejected (order @ [0..<length ps]) ps of
        Some e \<Rightarrow> Inl e
      | None \<Rightarrow> Inr (map projr ps))"

definition Local_resolveMany :: "LocalChannelRegistry \<Rightarrow> string list \<Rightarrow> error + string list" where
  \<comment> \<open>\<open>resolve\<close> never waits, so its promises settle in the order of the array\<close>
  "Local_resolveMany r namesOrIds = Promise_all [] (map (Local_resolve r) namesOrIds)"

section \<open>The persistent registry\<close>

text \<open>
  The external store is the \<open>Storage\<close> object of the environment: \<open>getItem\<close> reads the
  text kept under a key, \<open>setItem\<close> writes one or throws (a quota is exceeded). Which
  writes the store refuses is a field of the model; \<open>setItem\<close> gives \<open>None\<close> when it throws.
  \<open>JSON.stringify\<close> and \<open>JSON.parse\<close> belong to the runtime and are parameters of the
  functions that call them; \<open>parse\<close> gives \<open>None\<close> when the text is not valid JSON and the
  entries of the record otherwise. Stored text that parses to anything but a flat record
  of strings is outside the model, and so is a store whose \<open>getItem\<close> throws.
\<close>

record Storage =
  items :: string_map
  refuses :: "string \<Rightarrow> string \<Rightarrow> bool"

definition getItem :: "Storage \<Rightarrow> string \<Rightarrow> string option" where
  "getItem st key = Map_get (items st) key"

definition setItem :: "Storage \<Rightarrow> string \<Rightarrow> string \<Rightarrow> Storage option" where
  "setItem st key text =
     (if refuses st key text then None
      else Some (st\<lparr>items := Map_set (items st) key text\<rparr>))"

record PersistentChannelRegistry =
  base :: LocalChannelRegistry
  storageKey :: string
  storage :: "Storage option"

definition Persistent_new ::
  "(string \<Rightarrow> string_map option) \<Rightarrow> Storage option \<Rightarrow> string \<Rightarrow> PersistentChannelRegistry" where
  \<comment> \<open>\<open>localStorage\<close> is \<open>None\<close> where the environment has no store\<close>
  "Persistent_new parse localStorage key =
     (let initialData =
        (case localStorage of
           None \<Rightarrow> None
         | Some st \<Rightarrow>
             (case getItem st key of
                None \<Rightarrow> None
              | Some stored \<Rightarrow> if stored = [] then None else parse stored))
      in \<lparr>base = Local_new initialData, storageKey = key, storage = localStorage\<rparr>)"

definition persist ::
  "(string_map \<Rightarrow> string) \<Rightarrow> PersistentChannelRegistry \<Rightarrow> PersistentChannelRegistry" where
  "persist stringify p =
     (case storage p of
        None \<Rightarrow> p
      | Some st \<Rightarrow>
          (case setItem st (storageKey p) (stringify (Local_export (base p))) of
             None \<Rightarrow> p
           | Some st' \<Rightarrow> p\<lparr>storage := Some st'\<rparr>))"

definition Persistent_register ::
  "(string_map \<Rightarrow> string) \<Rightarrow> PersistentChannelRegistry \<Rightarrow> string \<Rightarrow> string \<Rightarrow>
     error + PersistentChannelRegistry" where
  "Persistent_register stringify p name channelId =
     (case Local_register (base p) name channelId of
        Inl e \<Rightarrow> Inl e
      | Inr b \<Rightarrow> Inr (persist stringify (p\<lparr>base := b\<rparr>)))"

definition Persistent_unregister ::
  "(string_map \<Rightarrow> string) \<Rightarrow> PersistentChannelRegistry \<Rightarrow> string \<Rightarrow> PersistentChannelRegistry" where
  "Persistent_unregister stringify p name =
     persist stringify (p\<lparr>base := Local_unregister (base p) name\<rparr>)"

definition Persistent_import ::
  "PersistentChannelRegistry \<Rightarrow> string_map \<Rightarrow> bool \<Rightarrow> PersistentChannelRegistry" where
  \<comment> \<open>inherited from the in-memory registry, not overridden\<close>
  "Persistent_import p data merge = p\<lparr>base := Local_import (base p) data merge\<rparr>"

definition Persistent_clear :: "PersistentChannelRegistry \<Rightarrow> PersistentChannelRegistry" where
  \<comment> \<open>inherited from the in-memory registry, not overridden\<close>
  "Persistent_clear p = p\<lparr>base := Local_clear (base p)\<rparr>"

definition save ::
  "(string_map \<Rightarrow> string) \<Rightarrow> PersistentChannelRegistry \<Rightarrow> PersistentChannelRegistry" where
  "save stringify p = persist stringify p"

definition reload ::
  "(string \<Rightarrow> string_map option) \<Rightarrow> PersistentChannelRegistry \<Rightarrow> PersistentChannelRegistry" where
  "reload parse p =
     (case storage p of
        None \<Rightarrow> p
      | Some st \<Rightarrow>
          (case getItem st (storageKey p) of
             None \<Rightarrow> p
           | Some stored \<Rightarrow>
               if stored = [] then p
               else
                 (case parse stored of
                    None \<Rightarrow> p
                  | Some data \<Rightarrow> p\<lparr>base := Local_import (base p) data False\<rparr>)))"

definition fresh_store :: Storage where
  \<comment> \<open>an empty store that accepts every write\<close>
  "fresh_store = \<lparr>items = [], refuses = (\<lambda>key text. False)\<rparr>"

definition full_store :: Storage where
  \<comment> \<open>an empty store with no room left: every write throws\<close>
  "full_store = \<lparr>items = [], refuses = (\<lambda>key text. True)\<rparr>"

text \<open>
  The store mirrors the registry: it holds, under the storage key, the serialized export
  of the in-memory state.
\<close>

definition mirrored :: "(string_map \<Rightarrow> string) \<Rightarrow> PersistentChannelRegistry \<Rightarrow> bool" where
  "mirrored stringify p =
     (case storage p of
        None \<Rightarrow> False
      | Some st \<Rightarrow> getItem st (storageKey p) = Some (stringify (Local_export (base p))))"

text \<open>
  What a call of \<open>persist\<close> leaves in the store, from the state \<open>p\<close> before the mutation
  to the state \<open>p'\<close> after it: with no store there is none afterwards; a refused write
  leaves the store as it was; an accepted write makes the store mirror the registry.
\<close>

definition written :: "(string_map \<Rightarrow> string) \<Rightarrow> PersistentChannelRegistry \<Rightarrow> PersistentChannelRegistry \<Rightarrow> bool" where
  "written stringify p p' =
     (case storage p of
        None \<Rightarrow> storage p' = None
      | Some st \<Rightarrow>
          if refuses st (storageKey p) (stringify (Local_export (base p')))
          then storage p' = Some st
          else mirrored stringify p')"

text \<open>
  For concrete inputs: the text \<open>JSON.stringify\<close> gives for a flat record whose keys and
  values need no escaping and whose keys are not integers, and a parser that reads
  back the texts of the listed records and rejects every other text.
\<close>

definition json_text :: "string_map \<Rightarrow> string" where
  "json_text entries =
     ''{'' @ concat (map (\<lambda>(i, (k, v)).
              (if i = 0 then [] else '','') @
              [CHR 0x22] @ k @ [CHR 0x22] @ '':'' @ [CHR 0x22] @ v @ [CHR 0x22])
            (enumerate 0 entries)) @ ''}''"

definition json_parse_of :: "string_map list \<Rightarrow> string \<Rightarrow> string_map option" where
  "json_parse_of known text = find (\<lambda>entries. json_text entries = text) known"

section \<open>The naming-service resolver\<close>

text \<open>
  The client of the naming service is its one operation, \<open>getNameRecord\<close>: it throws
  (\<open>Inl\<close>, with the text of the error it throws), or gives no record (\<open>None\<close>) or a record,
  whose target address may be missing. \<open>SuiNS_resolve\<close> gives its outcome together with
  the names it sent to the service.
\<close>

record NameRecord =
  targetAddress :: "string option"

type_synonym SuinsClient = "string \<Rightarrow> string + NameRecord option"

definition isSuiNSName :: "string \<Rightarrow> bool" where
  "isSuiNSName input = endsWith (toLowerCase input) ''.sui''"

definition SuiNS_resolve :: "SuinsClient \<Rightarrow> string \<Rightarrow> (error + string) \<times> string list" where
  "SuiNS_resolve getNameRecord nameOrAddress =
     (if \<not> isSuiNSName nameOrAddress then (Inr nameOrAddress, [])
      else
        (case getNameRecord nameOrAddress of
           Inl thrown \<Rightarrow> (Inl (ServiceError thrown), [nameOrAddress])
         | Inr None \<Rightarrow> (Inl (ResolutionFailed nameOrAddress), [nameOrAddress])
         | Inr (Some record) \<Rightarrow>
             (case targetAddress record of
                None \<Rightarrow> (Inl (ResolutionFailed nameOrAddress), [nameOrAddress])
              | Some address \<Rightarrow>
                  if address = [] then (Inl (ResolutionFailed nameOrAddress), [nameOrAddress])
                  else (Inr address, [nameOrAddress]))))"

definition SuiNS_resolveMany :: "nat list \<Rightarrow> SuinsClient \<Rightarrow> string list \<Rightarrow> error + string list" where
  \<comment> \<open>\<open>order\<close>: the order in which the service's answers arrive\<close>
  "SuiNS_resolveMany order getNameRecord namesOrAddresses =
     Promise_all order (map (\<lambda>n. fst (SuiNS_resolve getNameRecord n)) namesOrAddresses)"

definition SuiNS_reverseLookup :: "SuinsClient \<Rightarrow> string \<Rightarrow> string option" where
  "SuiNS_reverseLookup getNameRecord address = None"

section \<open>Sequences of operations and the invariant of the registry\<close>

text \<open>
  A registry is consistent when no key is held twice by either map, every pair of the
  alias map has a non-empty alias and a non-empty id and is held the other way round by
  the id map, and every pair of the id map is held the other way round by the alias map.
  \<open>paired\<close> is the same relation on the lookup functions of the two maps.
\<close>

definition consistent :: "LocalChannelRegistry \<Rightarrow> bool" where
  "consistent r =
     (distinct (map fst (nameToId r)) \<and> distinct (map fst (idToName r)) \<and>
      list_all (\<lambda>(alias, channelId). alias \<noteq> [] \<and> channelId \<noteq> [] \<and>
                  Map_get (idToName r) channelId = Some alias) (nameToId r) \<and>
      list_all (\<lambda>(channelId, alias). Map_get (nameToId r) alias = Some channelId) (idToName r))"

definition paired :: "(string \<rightharpoonup> string) \<Rightarrow> (string \<rightharpoonup> string) \<Rightarrow> bool" where
  "paired M I \<longleftrightarrow>
     (\<forall>a i. M a = Some i \<longrightarrow> a \<noteq> [] \<and> i \<noteq> [] \<and> I i = Some a) \<and>
     (\<forall>i a. I i = Some a \<longrightarrow> M a = Some i)"

text \<open>
  The mutations of the registry as values, and the registry a sequence of them leaves,
  from the constructor on. A \<open>register\<close> that throws leaves the registry as it was. An
  operation is plain when it is \<open>clear\<close>, an \<open>unregister\<close>, or a \<open>register\<close> of a non-empty
  alias and a non-empty id.
\<close>

datatype operation =
    Register string string
  | Unregister string
  | Import string_map bool
  | Clear

definition apply_operation :: "LocalChannelRegistry \<Rightarrow> operation \<Rightarrow> LocalChannelRegistry" where
  "apply_operation r op =
     (case op of
        Register name channelId \<Rightarrow>
          (case Local_register r name channelId of Inl e \<Rightarrow> r | Inr r' \<Rightarrow> r')
      | Unregister name \<Rightarrow> Local_unregister r name
      | Import data merge \<Rightarrow> Local_import r data merge
      | Clear \<Rightarrow> Local_clear r)"

definition run :: "string_map option \<Rightarrow> operation list \<Rightarrow> LocalChannelRegistry" where
  "run initialMappings ops = foldl apply_operation (Local_new initialMappings) ops"

definition plain :: "operation \<Rightarrow> bool" where
  "plain op =
     (case op of
        Register name channelId \<Rightarrow> normalizeChannelName name \<noteq> [] \<and> channelId \<noteq> []
      | Unregister name \<Rightarrow> True
      | Import data merge \<Rightarrow> False
      | Clear \<Rightarrow> True)"

section \<open>Normalization\<close>

lemma of_char_lower_char:
  "(of_char (lower_char c) :: nat) =
     (let n = (of_char c :: nat) in
      if (65 \<le> n \<and> n \<le> 90) \<or> (192 \<le> n \<and> n \<le> 222 \<and> n \<noteq> 215) then n + 32 else n)"
  by (auto simp: lower_char_def Let_def)

lemma lower_char_idem: "lower_char (lower_char c) = lower_char c"
  by (rule of_char_eqI[where 'a=nat]) (auto simp: of_char_lower_char Let_def)

lemma is_ws_lower_char: "is_ws (lower_char c) = is_ws c"
  by (auto simp: is_ws_def of_char_lower_char Let_def)

lemma lower_char_hash: "lower_char c = CHR ''#'' \<longleftrightarrow> c = CHR ''#''"
proof -
  have "(of_char (lower_char c) :: nat) = 35 \<longleftrightarrow> (of_char c :: nat) = 35"
    by (auto simp: of_char_lower_char Let_def)
  moreover have "(of_char (CHR ''#'') :: nat) = 35" by simp
  ultimately show ?thesis
    by (metis of_char_eq_iff)
qed

lemma not_ws_hash: "\<not> is_ws CHR ''#''"
  by (simp add: is_ws_def)

lemma startsWith_hash: "startsWith s ''#'' \<longleftrightarrow> (s \<noteq> [] \<and> hd s = CHR ''#'')"
  by (cases s) (auto simp: startsWith_def)

lemma dropWhile_hd: "dropWhile P s \<noteq> [] \<Longrightarrow> \<not> P (hd (dropWhile P s))"
  by (metis hd_dropWhile)

lemma last_dropWhile: "dropWhile P s \<noteq> [] \<Longrightarrow> last (dropWhile P s) = last s"
  by (induction s) (auto split: if_splits)

lemma dropWhile_length_id: "length (dropWhile P xs) = length xs \<Longrightarrow> dropWhile P xs = xs"
  by (metis takeWhile_dropWhile_id self_append_conv2 append_eq_append_conv)

lemma trim_hd: "trim s \<noteq> [] \<Longrightarrow> \<not> is_ws (hd (trim s))"
proof -
  assume ne: "trim s \<noteq> []"
  let ?u = "dropWhile is_ws s"
  let ?v = "dropWhile is_ws (rev ?u)"
  from ne have v: "?v \<noteq> []" unfolding trim_def by (simp only: rev_is_Nil_conv not_False_eq_True)
  have u: "?u \<noteq> []"
  proof
    assume "?u = []"
    then have "?v = []" by (simp only: rev.simps dropWhile.simps)
    with v show False by simp
  qed
  have "hd (trim s) = last ?v" using v by (simp add: trim_def hd_rev)
  also have "\<dots> = last (rev ?u)" using v by (rule last_dropWhile)
  also have "\<dots> = hd ?u" using u by (simp add: last_rev)
  finally show ?thesis using dropWhile_hd[OF u] by simp
qed

lemma trim_last: "trim s \<noteq> [] \<Longrightarrow> \<not> is_ws (last (trim s))"
proof -
  assume ne: "trim s \<noteq> []"
  let ?v = "dropWhile is_ws (rev (dropWhile is_ws s))"
  from ne have v: "?v \<noteq> []" unfolding trim_def by (simp only: rev_is_Nil_conv not_False_eq_True)
  have "last (trim s) = hd ?v" using v by (simp add: trim_def last_rev)
  then show ?thesis using dropWhile_hd[OF v] by simp
qed

lemma trim_id: "s = [] \<or> (\<not> is_ws (hd s) \<and> \<not> is_ws (last s)) \<Longrightarrow> trim s = s"
proof (cases s)
  case Nil then show ?thesis by (simp add: trim_def)
next
  case (Cons c cs)
  assume "s = [] \<or> (\<not> is_ws (hd s) \<and> \<not> is_ws (last s))"
  with Cons have h: "\<not> is_ws (hd s)" and l: "\<not> is_ws (last s)" by auto
  have 1: "dropWhile is_ws s = s" using h Cons by simp
  have "rev s \<noteq> []" "hd (rev s) = last s" using Cons by (auto simp: hd_rev)
  then obtain a as where r: "rev s = a # as" "a = last s" by (cases "rev s") auto
  have 2: "dropWhile is_ws (rev s) = rev s" unfolding r(1) using l r(2) by simp
  show ?thesis by (simp add: trim_def 1 2)
qed

lemma length_trim_le: "length (trim s) \<le> length s"
proof -
  have "length (trim s) \<le> length (dropWhile is_ws s)"
    by (simp add: trim_def) (metis length_dropWhile_le length_rev)
  also have "\<dots> \<le> length s" by (rule length_dropWhile_le)
  finally show ?thesis .
qed

lemma length_trim_less: "s \<noteq> [] \<Longrightarrow> is_ws (hd s) \<Longrightarrow> length (trim s) < length s"
proof -
  assume "s \<noteq> []" "is_ws (hd s)"
  then have "length (dropWhile is_ws s) < length s"
    by (cases s) (auto simp: le_imp_less_Suc length_dropWhile_le)
  moreover have "length (trim s) \<le> length (dropWhile is_ws s)"
    by (simp add: trim_def) (metis length_dropWhile_le length_rev)
  ultimately show ?thesis by simp
qed

lemma length_normalize_le: "length (normalizeChannelName s) \<le> length (trim s)"
  by (simp add: normalizeChannelName_def Let_def toLowerCase_def)

lemma toLowerCase_idem: "toLowerCase (toLowerCase s) = toLowerCase s"
  by (simp add: toLowerCase_def lower_char_idem)

lemma toLowerCase_drop: "toLowerCase (drop n s) = drop n (toLowerCase s)"
  by (simp add: toLowerCase_def drop_map)

lemma normalize_lower: "toLowerCase (normalizeChannelName x) = normalizeChannelName x"
  by (simp add: normalizeChannelName_def Let_def toLowerCase_drop toLowerCase_idem)

lemma normalize_last: 
  assumes "normalizeChannelName x \<noteq> []" shows "\<not> is_ws (last (normalizeChannelName x))"
proof -
  let ?l = "toLowerCase (trim x)"
  from assms have t: "trim x \<noteq> []" by (auto simp: normalizeChannelName_def Let_def toLowerCase_def split: if_splits)
  have "last ?l = lower_char (last (trim x))" using t by (simp add: toLowerCase_def last_map)
  then have l: "\<not> is_ws (last ?l)" using trim_last[OF t] by (simp add: is_ws_lower_char)
  have "last (normalizeChannelName x) = last ?l"
    using assms by (auto simp: normalizeChannelName_def Let_def)
  then show ?thesis using l by simp
qed

lemma normalize_fixed:
  assumes "toLowerCase y = y" and "y = [] \<or> \<not> is_ws (last y)"
    and "\<not> startsWith y ''#''" and "y = [] \<or> \<not> is_ws (hd y)"
  shows "normalizeChannelName y = y"
proof -
  have "trim y = y" using assms(2,4) by (intro trim_id) auto
  then show ?thesis using assms(1,3) by (simp add: normalizeChannelName_def)
qed

lemma normalize_shrinks:
  assumes "toLowerCase y = y" and "startsWith y ''#'' \<or> (y \<noteq> [] \<and> is_ws (hd y))"
  shows "length (normalizeChannelName y) < length y"
proof (cases "y \<noteq> [] \<and> is_ws (hd y)")
  case True
  then have "length (trim y) < length y" by (simp add: length_trim_less)
  then show ?thesis using length_normalize_le[of y] by simp
next
  case False
  with assms(2) have h: "startsWith y ''#''" by auto
  then have ne: "y \<noteq> []" by (simp add: startsWith_hash)
  have "length (normalizeChannelName y) \<le> length (trim y)" by (rule length_normalize_le)
  show ?thesis
  proof (cases "trim y = y")
    case True
    then show ?thesis using h ne assms(1) by (simp add: normalizeChannelName_def)
  next
    case False
    have "length (trim y) \<noteq> length y"
    proof
      assume eq: "length (trim y) = length y"
      have "length (trim y) \<le> length (dropWhile is_ws y)"
        by (simp add: trim_def) (metis length_dropWhile_le length_rev)
      with eq have "length (dropWhile is_ws y) = length y"
        using length_dropWhile_le[of is_ws y] by simp
      then have d: "dropWhile is_ws y = y"
        by (rule dropWhile_length_id)
      from eq d have "length (dropWhile is_ws (rev y)) = length (rev y)" by (simp add: trim_def)
      then have "dropWhile is_ws (rev y) = rev y"
        by (rule dropWhile_length_id)
      with d have "trim y = y" by (simp add: trim_def)
      with False show False by simp
    qed
    then have "length (trim y) < length y" using length_trim_le[of y] by simp
    then show ?thesis using length_normalize_le[of y] by simp
  qed
qed


text \<open>
  Claim C2, as the code has it. Normalizing twice gives the result of normalizing once
  exactly when that result does not begin with \<open>#\<close> or with white space: the function strips
  one leading \<open>#\<close> after trimming, so an input such as \<open>##a\<close> or \<open># a\<close> still has
  something to strip after one pass.
\<close>

theorem normalizeChannelName_idempotent_iff:
  "normalizeChannelName (normalizeChannelName x) = normalizeChannelName x \<longleftrightarrow>
     \<not> startsWith (normalizeChannelName x) ''#'' \<and>
     (normalizeChannelName x = [] \<or> \<not> is_ws (hd (normalizeChannelName x)))"
proof -
  let ?y = "normalizeChannelName x"
  have low: "toLowerCase ?y = ?y" by (rule normalize_lower)
  have lst: "?y = [] \<or> \<not> is_ws (last ?y)" using normalize_last by blast
  show ?thesis
  proof
    assume eq: "normalizeChannelName ?y = ?y"
    show "\<not> startsWith ?y ''#'' \<and> (?y = [] \<or> \<not> is_ws (hd ?y))"
    proof (rule ccontr)
      assume "\<not> ?thesis"
      then have "startsWith ?y ''#'' \<or> (?y \<noteq> [] \<and> is_ws (hd ?y))" by blast
      from normalize_shrinks[OF low this] eq show False by simp
    qed
  next
    assume "\<not> startsWith ?y ''#'' \<and> (?y = [] \<or> \<not> is_ws (hd ?y))"
    then show "normalizeChannelName ?y = ?y"
      using normalize_fixed[OF low lst] by blast
  qed
qed

theorem normalizeChannelName_idempotent_witness:
  "normalizeChannelName (normalizeChannelName ''  #GENERAL  '') = normalizeChannelName ''  #GENERAL  ''"
proof -
  have "\<not> startsWith (normalizeChannelName ''  #GENERAL  '') ''#'' \<and>
        (normalizeChannelName ''  #GENERAL  '' = [] \<or>
         \<not> is_ws (hd (normalizeChannelName ''  #GENERAL  '')))"
    by code_simp
  then show ?thesis
    by (rule normalizeChannelName_idempotent_iff [THEN iffD2])
qed

theorem normalizeChannelName_not_idempotent:
  "normalizeChannelName (normalizeChannelName ''##a'') \<noteq> normalizeChannelName ''##a''"
  by code_simp

section \<open>Batch resolution\<close>

lemma first_rejected_None:
  "first_rejected order ps = None \<longleftrightarrow> (\<forall>i\<in>set order. i < length ps \<longrightarrow> \<not> isl (ps ! i))"
proof -
  have "first_rejected order ps = None \<longleftrightarrow>
        filter (\<lambda>i. i < length ps \<and> isl (ps ! i)) order = []"
    by (simp add: first_rejected_def split: list.splits)
  then show ?thesis by (auto simp: filter_empty_conv)
qed

lemma first_rejected_Some:
  assumes "first_rejected order ps = Some e"
  shows "\<exists>i\<in>set order. i < length ps \<and> ps ! i = Inl e"
proof -
  from assms obtain i rest where f: "filter (\<lambda>i. i < length ps \<and> isl (ps ! i)) order = i # rest"
    and e: "e = projl (ps ! i)"
    by (auto simp: first_rejected_def split: list.splits)
  from f have "i \<in> set (filter (\<lambda>i. i < length ps \<and> isl (ps ! i)) order)" by simp
  then have "i \<in> set order" "i < length ps" "isl (ps ! i)" by auto
  then show ?thesis using e by (auto simp: isl_def)
qed

lemma first_rejected_upt:
  assumes "first_rejected [0..<length ps] ps = Some e"
  shows "\<exists>i<length ps. ps ! i = Inl e \<and> (\<forall>j<i. \<not> isl (ps ! j))"
proof -
  let ?P = "\<lambda>i. i < length ps \<and> isl (ps ! i)"
  from assms obtain i rest where f: "filter ?P [0..<length ps] = i # rest"
    and e: "e = projl (ps ! i)"
    by (auto simp: first_rejected_def split: list.splits)
  from f have "i \<in> set (filter ?P [0..<length ps])" by simp
  then have i: "i < length ps" "isl (ps ! i)" by auto
  have "\<not> isl (ps ! j)" if "j < i" for j
  proof
    assume "isl (ps ! j)"
    with that i have "j \<in> set (filter ?P [0..<length ps])" by simp
    with f have "j = i \<or> j \<in> set rest" by simp
    moreover have "sorted_wrt (<) (filter ?P [0..<length ps])"
      by (rule sorted_wrt_filter) simp
    then have "\<forall>k\<in>set rest. i < k" using f by simp
    ultimately show False using that by auto
  qed
  then show ?thesis using i e by (auto simp: isl_def)
qed

lemma map_projr_id: "\<forall>p\<in>set ps. \<not> isl p \<Longrightarrow> map Inr (map projr ps) = ps"
  by (induction ps) (auto simp: isl_def split: sum.splits)

lemma Promise_all_fulfilled:
  assumes "\<forall>p\<in>set ps. \<not> isl p"
  shows "Promise_all order ps = Inr (map projr ps)"
proof -
  have "first_rejected (order @ [0..<length ps]) ps = None"
    using assms by (simp add: first_rejected_None)
  then show ?thesis by (simp add: Promise_all_def)
qed

lemma Promise_all_rejected:
  assumes "\<exists>p\<in>set ps. isl p"
  shows "\<exists>i<length ps. \<exists>e. ps ! i = Inl e \<and> Promise_all order ps = Inl e"
proof -
  from assms obtain k where k: "k < length ps" "isl (ps ! k)"
    by (auto simp: in_set_conv_nth)
  then have "first_rejected (order @ [0..<length ps]) ps \<noteq> None"
    by (auto simp: first_rejected_None)
  then obtain e where e: "first_rejected (order @ [0..<length ps]) ps = Some e" by auto
  from first_rejected_Some[OF e] obtain i where "i < length ps" "ps ! i = Inl e" by auto
  then show ?thesis using e by (auto simp: Promise_all_def)
qed

lemma Promise_all_leftmost:
  assumes "\<exists>p\<in>set ps. isl p"
  shows "\<exists>i<length ps. \<exists>e. ps ! i = Inl e \<and> (\<forall>j<i. \<not> isl (ps ! j)) \<and> Promise_all [] ps = Inl e"
proof -
  from assms obtain k where k: "k < length ps" "isl (ps ! k)"
    by (auto simp: in_set_conv_nth)
  then have "first_rejected [0..<length ps] ps \<noteq> None"
    by (auto simp: first_rejected_None)
  then obtain e where e: "first_rejected [0..<length ps] ps = Some e" by auto
  from first_rejected_upt[OF e] obtain i where
    "i < length ps" "ps ! i = Inl e" "\<forall>j<i. \<not> isl (ps ! j)" by auto
  then show ?thesis using e by (auto simp: Promise_all_def)
qed

text \<open>
  Claim C7. \<open>resolveMany\<close>, of the registry and of the naming-service resolver: when
  every element resolves, the result is the list of the elements' results in the order
  of the inputs; when some element fails, the whole call fails with the error of a
  failing element and gives no list. For the registry that element is the leftmost
  failing one; for the naming service it is the one whose answer arrives first, whatever
  the order of arrival.
\<close>

theorem resolveMany_all_or_error:
  "((\<forall>x\<in>set xs. \<not> isl (Local_resolve r x)) \<longrightarrow>
      Local_resolveMany r xs = Inr (map (\<lambda>x. projr (Local_resolve r x)) xs)) \<and>
   ((\<exists>x\<in>set xs. isl (Local_resolve r x)) \<longrightarrow>
      (\<exists>i<length xs. \<exists>e. Local_resolve r (xs ! i) = Inl e \<and>
         (\<forall>j<i. \<not> isl (Local_resolve r (xs ! j))) \<and> Local_resolveMany r xs = Inl e)) \<and>
   ((\<forall>x\<in>set xs. \<not> isl (fst (SuiNS_resolve c x))) \<longrightarrow>
      SuiNS_resolveMany order c xs = Inr (map (\<lambda>x. projr (fst (SuiNS_resolve c x))) xs)) \<and>
   ((\<exists>x\<in>set xs. isl (fst (SuiNS_resolve c x))) \<longrightarrow>
      (\<exists>i<length xs. \<exists>e. fst (SuiNS_resolve c (xs ! i)) = Inl e \<and>
         SuiNS_resolveMany order c xs = Inl e))"
proof (intro conjI impI)
  assume "\<forall>x\<in>set xs. \<not> isl (Local_resolve r x)"
  then have "\<forall>p\<in>set (map (Local_resolve r) xs). \<not> isl p" by simp
  from Promise_all_fulfilled[OF this, of "[]"]
  show "Local_resolveMany r xs = Inr (map (\<lambda>x. projr (Local_resolve r x)) xs)"
    by (simp add: Local_resolveMany_def comp_def)
next
  assume "\<exists>x\<in>set xs. isl (Local_resolve r x)"
  then have "\<exists>p\<in>set (map (Local_resolve r) xs). isl p" by simp
  from Promise_all_leftmost[OF this]
  show "\<exists>i<length xs. \<exists>e. Local_resolve r (xs ! i) = Inl e \<and>
         (\<forall>j<i. \<not> isl (Local_resolve r (xs ! j))) \<and> Local_resolveMany r xs = Inl e"
    by (auto simp: Local_resolveMany_def)
next
  assume "\<forall>x\<in>set xs. \<not> isl (fst (SuiNS_resolve c x))"
  then have "\<forall>p\<in>set (map (\<lambda>n. fst (SuiNS_resolve c n)) xs). \<not> isl p" by simp
  from Promise_all_fulfilled[OF this, of order]
  show "SuiNS_resolveMany order c xs = Inr (map (\<lambda>x. projr (fst (SuiNS_resolve c x))) xs)"
    by (simp add: SuiNS_resolveMany_def comp_def)
next
  assume "\<exists>x\<in>set xs. isl (fst (SuiNS_resolve c x))"
  then have "\<exists>p\<in>set (map (\<lambda>n. fst (SuiNS_resolve c n)) xs). isl p" by simp
  from Promise_all_rejected[OF this, of order]
  show "\<exists>i<length xs. \<exists>e. fst (SuiNS_resolve c (xs ! i)) = Inl e \<and>
         SuiNS_resolveMany order c xs = Inl e"
    by (auto simp: SuiNS_resolveMany_def)
qed

theorem resolveMany_witness:
  "Local_resolveMany (Local_new (Some [(''general'', ''0xchannel1''), (''random'', ''0xchannel2'')]))
     [''#general'', ''0xother'', ''random''] = Inr [''0xchannel1'', ''0xother'', ''0xchannel2''] \<and>
   Local_resolveMany (Local_new (Some [(''general'', ''0xchannel1''), (''random'', ''0xchannel2'')]))
     [''#general'', ''#unknown''] = Inl (NameNotFound ''#unknown'') \<and>
   SuiNS_resolveMany [2, 1, 0]
     (\<lambda>n. if n = ''middle.sui'' then Inr (Some \<lparr>targetAddress = Some ''0xresolved''\<rparr>) else Inr None)
     [''0xfirst'', ''middle.sui'', ''0xlast''] = Inr [''0xfirst'', ''0xresolved'', ''0xlast''] \<and>
   SuiNS_resolveMany [1, 0]
     (\<lambda>n. if n = ''middle.sui'' then Inr (Some \<lparr>targetAddress = Some ''0xresolved''\<rparr>) else Inr None)
     [''middle.sui'', ''fails.sui''] = Inl (ResolutionFailed ''fails.sui'')"
proof -
  let ?r = "Local_new (Some [(''general'', ''0xchannel1''), (''random'', ''0xchannel2'')])"
  let ?c = "\<lambda>n. if n = ''middle.sui'' then Inr (Some \<lparr>targetAddress = Some ''0xresolved''\<rparr>) else Inr None"
  let ?xs1 = "[''#general'', ''0xother'', ''random'']"
  let ?xs2 = "[''#general'', ''#unknown'']"
  let ?xs3 = "[''0xfirst'', ''middle.sui'', ''0xlast'']"
  let ?xs4 = "[''middle.sui'', ''fails.sui'']"
  have a1: "\<forall>x\<in>set ?xs1. \<not> isl (Local_resolve ?r x)" by code_simp
  have v1: "map (\<lambda>x. projr (Local_resolve ?r x)) ?xs1 = [''0xchannel1'', ''0xother'', ''0xchannel2'']"
    by code_simp
  have c1: "Local_resolveMany ?r ?xs1 = Inr [''0xchannel1'', ''0xother'', ''0xchannel2'']"
    using resolveMany_all_or_error[of ?xs1 ?r, THEN conjunct1, THEN mp, OF a1] v1 by simp
  have a2: "\<exists>x\<in>set ?xs2. isl (Local_resolve ?r x)" by code_simp
  have e0: "Local_resolve ?r (?xs2 ! 0) = Inr ''0xchannel1''" by code_simp
  have e1: "Local_resolve ?r (?xs2 ! 1) = Inl (NameNotFound ''#unknown'')" by code_simp
  from resolveMany_all_or_error[of ?xs2 ?r, THEN conjunct2, THEN conjunct1, THEN mp, OF a2]
  obtain i e where i: "i < length ?xs2" "Local_resolve ?r (?xs2 ! i) = Inl e"
    "Local_resolveMany ?r ?xs2 = Inl e" by blast
  from i(1) have "i = 0 \<or> i = 1" by auto
  with i(2) e0 e1 have "e = NameNotFound ''#unknown''" by auto
  with i(3) have c2: "Local_resolveMany ?r ?xs2 = Inl (NameNotFound ''#unknown'')" by simp
  have a3: "\<forall>x\<in>set ?xs3. \<not> isl (fst (SuiNS_resolve ?c x))" by code_simp
  have v3: "map (\<lambda>x. projr (fst (SuiNS_resolve ?c x))) ?xs3 = [''0xfirst'', ''0xresolved'', ''0xlast'']"
    by code_simp
  have c3: "SuiNS_resolveMany [2, 1, 0] ?c ?xs3 = Inr [''0xfirst'', ''0xresolved'', ''0xlast'']"
    using resolveMany_all_or_error[where xs="?xs3" and c="?c" and order="[2, 1, 0]", THEN conjunct2, THEN conjunct2,
        THEN conjunct1, THEN mp, OF a3] v3 by simp
  have a4: "\<exists>x\<in>set ?xs4. isl (fst (SuiNS_resolve ?c x))" by code_simp
  have f0: "fst (SuiNS_resolve ?c (?xs4 ! 0)) = Inr ''0xresolved''" by code_simp
  have f1: "fst (SuiNS_resolve ?c (?xs4 ! 1)) = Inl (ResolutionFailed ''fails.sui'')" by code_simp
  from resolveMany_all_or_error[where xs="?xs4" and c="?c" and order="[1, 0]", THEN conjunct2, THEN conjunct2,
        THEN conjunct2, THEN mp, OF a4]
  obtain k e' where k: "k < length ?xs4" "fst (SuiNS_resolve ?c (?xs4 ! k)) = Inl e'"
    "SuiNS_resolveMany [1, 0] ?c ?xs4 = Inl e'" by blast
  from k(1) have "k = 0 \<or> k = 1" by auto
  with k(2) f0 f1 have "e' = ResolutionFailed ''fails.sui''" by auto
  with k(3) have c4: "SuiNS_resolveMany [1, 0] ?c ?xs4 = Inl (ResolutionFailed ''fails.sui'')" by simp
  from c1 c2 c3 c4 show ?thesis by (intro conjI)
qed

section \<open>Resolution through the naming service\<close>

text \<open>
  Claim C8. \<open>SuiNSResolver.resolve\<close> gives back an input that is not a SuiNS name
  unchanged and sends nothing to the service. For a SuiNS name it sends the input as it
  is, once; it fails with \<open>ResolutionFailed\<close> naming the input exactly when the service
  gives no record or a record whose target address is missing or empty, and gives the
  target address otherwise. An error thrown by the service is passed on as it is.
\<close>

theorem SuiNS_resolve_spec:
  "(\<not> isSuiNSName input \<longrightarrow> SuiNS_resolve c input = (Inr input, [])) \<and>
   (isSuiNSName input \<longrightarrow>
      snd (SuiNS_resolve c input) = [input] \<and>
      (fst (SuiNS_resolve c input) = Inl (ResolutionFailed input) \<longleftrightarrow>
         c input = Inr None \<or>
         (\<exists>record. c input = Inr (Some record) \<and> \<not> truthy (targetAddress record))) \<and>
      (\<forall>record address. c input = Inr (Some record) \<and> targetAddress record = Some address \<and>
         address \<noteq> [] \<longrightarrow> fst (SuiNS_resolve c input) = Inr address) \<and>
      (\<forall>thrown. c input = Inl thrown \<longrightarrow> fst (SuiNS_resolve c input) = Inl (ServiceError thrown)))"
  by (auto simp: SuiNS_resolve_def truthy_def split: sum.splits option.splits)

theorem SuiNS_resolve_witness:
  "SuiNS_resolve (\<lambda>n. if n = ''Alice.SUI'' then Inr (Some \<lparr>targetAddress = Some ''0xalice''\<rparr>)
                       else if n = ''notarget.sui'' then Inr (Some \<lparr>targetAddress = None\<rparr>)
                       else if n = ''down.sui'' then Inl ''network error''
                       else Inr None) ''0x2'' = (Inr ''0x2'', []) \<and>
   SuiNS_resolve (\<lambda>n. if n = ''Alice.SUI'' then Inr (Some \<lparr>targetAddress = Some ''0xalice''\<rparr>)
                       else if n = ''notarget.sui'' then Inr (Some \<lparr>targetAddress = None\<rparr>)
                       else if n = ''down.sui'' then Inl ''network error''
                       else Inr None) ''Alice.SUI'' = (Inr ''0xalice'', [''Alice.SUI'']) \<and>
   SuiNS_resolve (\<lambda>n. if n = ''Alice.SUI'' then Inr (Some \<lparr>targetAddress = Some ''0xalice''\<rparr>)
                       else if n = ''notarget.sui'' then Inr (Some \<lparr>targetAddress = None\<rparr>)
                       else if n = ''down.sui'' then Inl ''network error''
                       else Inr None) ''notarget.sui'' =
     (Inl (ResolutionFailed ''notarget.sui''), [''notarget.sui'']) \<and>
   SuiNS_resolve (\<lambda>n. if n = ''Alice.SUI'' then Inr (Some \<lparr>targetAddress = Some ''0xalice''\<rparr>)
                       else if n = ''notarget.sui'' then Inr (Some \<lparr>targetAddress = None\<rparr>)
                       else if n = ''down.sui'' then Inl ''network error''
                       else Inr None) ''down.sui'' =
     (Inl (ServiceError ''network error''), [''down.sui''])"
proof -
  let ?c = "\<lambda>n. if n = ''Alice.SUI'' then Inr (Some \<lparr>targetAddress = Some ''0xalice''\<rparr>)
                       else if n = ''notarget.sui'' then Inr (Some \<lparr>targetAddress = None\<rparr>)
                       else if n = ''down.sui'' then Inl ''network error''
                       else Inr None"
  have n0: "\<not> isSuiNSName ''0x2''" by code_simp
  have n1: "isSuiNSName ''Alice.SUI''" by code_simp
  have n2: "isSuiNSName ''notarget.sui''" by code_simp
  have n3: "isSuiNSName ''down.sui''" by code_simp
  have c1: "?c ''Alice.SUI'' = Inr (Some \<lparr>targetAddress = Some ''0xalice''\<rparr>)" by simp
  have c2: "?c ''notarget.sui'' = Inr (Some \<lparr>targetAddress = None\<rparr>)" by simp
  have c3: "?c ''down.sui'' = Inl ''network error''" by simp
  note s0 = SuiNS_resolve_spec[of "''0x2''" ?c, THEN conjunct1, THEN mp, OF n0]
  note s1 = SuiNS_resolve_spec[of "''Alice.SUI''" ?c, THEN conjunct2, THEN mp, OF n1]
  note s2 = SuiNS_resolve_spec[of "''notarget.sui''" ?c, THEN conjunct2, THEN mp, OF n2]
  note s3 = SuiNS_resolve_spec[of "''down.sui''" ?c, THEN conjunct2, THEN mp, OF n3]
  have r1: "fst (SuiNS_resolve ?c ''Alice.SUI'') = Inr ''0xalice''"
    using s1[THEN conjunct2, THEN conjunct2, THEN conjunct1, rule_format,
             of "\<lparr>targetAddress = Some ''0xalice''\<rparr>" "''0xalice''"] c1 by simp
  have r2: "fst (SuiNS_resolve ?c ''notarget.sui'') = Inl (ResolutionFailed ''notarget.sui'')"
    using s2[THEN conjunct2, THEN conjunct1] c2 by (simp add: truthy_def)
  have r3: "fst (SuiNS_resolve ?c ''down.sui'') = Inl (ServiceError ''network error'')"
    using s3[THEN conjunct2, THEN conjunct2, THEN conjunct2, rule_format, of "''network error''"] c3
    by simp
  show ?thesis
    using s0 r1 r2 r3 s1[THEN conjunct1] s2[THEN conjunct1] s3[THEN conjunct1]
    by (simp only: prod_eq_iff fst_conv snd_conv simp_thms)
qed

section \<open>Persistence\<close>

lemma getItem_setItem:
  "setItem st key text = Some st' \<Longrightarrow> getItem st' key = Some text"
  by (auto simp: setItem_def getItem_def update_conv' split: if_splits)

lemma setItem_refused: "setItem st key text = None \<longleftrightarrow> refuses st key text"
  by (simp add: setItem_def)

lemma persist_base: "base (persist stringify p) = base p"
  by (simp add: persist_def split: option.splits)

lemma persist_storageKey: "storageKey (persist stringify p) = storageKey p"
  by (simp add: persist_def split: option.splits)

lemma persist_no_store: "storage p = None \<Longrightarrow> storage (persist stringify p) = None"
  by (simp add: persist_def)

lemma persist_refused:
  "storage p = Some st \<Longrightarrow> refuses st (storageKey p) (stringify (Local_export (base p))) \<Longrightarrow>
   storage (persist stringify p) = Some st"
  by (simp add: persist_def setItem_def)

lemma persist_mirrored:
  "storage p = Some st \<Longrightarrow> \<not> refuses st (storageKey p) (stringify (Local_export (base p))) \<Longrightarrow>
   mirrored stringify (persist stringify p)"
  by (simp add: persist_def setItem_def mirrored_def getItem_def update_conv')

lemma persist_written: "written stringify p (persist stringify p)"
  by (auto simp: written_def persist_base persist_no_store persist_refused persist_mirrored
      split: option.splits)

text \<open>
  Claim C3, as the code has it. \<open>register\<close> and \<open>unregister\<close> of the persistent registry
  do what the in-memory registry does and then write the serialized export under the
  storage key: after an accepted write the store mirrors the in-memory state. A refused
  write is swallowed: the only error \<open>register\<close> can give is the in-memory registry's own,
  and the in-memory result is kept whether the write succeeds or not. \<open>import\<close> and
  \<open>clear\<close> are inherited unchanged: they change the in-memory state and write nothing.
\<close>

theorem persistent_mutations:
  "(Persistent_register stringify p name channelId = Inl e \<longleftrightarrow>
      Local_register (base p) name channelId = Inl e) \<and>
   (\<forall>b. Local_register (base p) name channelId = Inr b \<longrightarrow>
      (\<exists>p'. Persistent_register stringify p name channelId = Inr p' \<and> base p' = b \<and>
            storageKey p' = storageKey p \<and> written stringify p p')) \<and>
   base (Persistent_unregister stringify p name) = Local_unregister (base p) name \<and>
   storageKey (Persistent_unregister stringify p name) = storageKey p \<and>
   written stringify p (Persistent_unregister stringify p name) \<and>
   base (Persistent_import p data merge) = Local_import (base p) data merge \<and>
   storage (Persistent_import p data merge) = storage p \<and>
   base (Persistent_clear p) = Local_clear (base p) \<and>
   storage (Persistent_clear p) = storage p"
proof (intro conjI allI impI)
  show "Persistent_register stringify p name channelId = Inl e \<longleftrightarrow>
      Local_register (base p) name channelId = Inl e"
    by (simp add: Persistent_register_def split: sum.splits)
next
  fix b assume b: "Local_register (base p) name channelId = Inr b"
  let ?q = "p\<lparr>base := b\<rparr>"
  have "written stringify ?q (persist stringify ?q)" by (rule persist_written)
  then have "written stringify p (persist stringify ?q)"
    by (auto simp: written_def split: option.splits if_splits)
  then show "\<exists>p'. Persistent_register stringify p name channelId = Inr p' \<and> base p' = b \<and>
            storageKey p' = storageKey p \<and> written stringify p p'"
    using b by (simp add: Persistent_register_def persist_base persist_storageKey)
next
  let ?q = "p\<lparr>base := Local_unregister (base p) name\<rparr>"
  have "written stringify ?q (persist stringify ?q)" by (rule persist_written)
  then show "written stringify p (Persistent_unregister stringify p name)"
    by (auto simp: written_def Persistent_unregister_def split: option.splits if_splits)
qed (simp_all add: Persistent_unregister_def persist_base persist_storageKey
       Persistent_import_def Persistent_clear_def)

theorem persistent_mutations_witness:
  "(\<exists>p'. Persistent_register json_text
            (Persistent_new (json_parse_of []) (Some fresh_store) ''sui-messaging-channels'')
            ''General'' ''0xchannel1'' = Inr p' \<and>
         base p' = \<lparr>nameToId = [(''general'', ''0xchannel1'')],
                    idToName = [(''0xchannel1'', ''general'')]\<rparr> \<and>
         mirrored json_text p') \<and>
   (\<exists>p'. Persistent_register json_text
            (Persistent_new (json_parse_of []) (Some full_store) ''sui-messaging-channels'')
            ''General'' ''0xchannel1'' = Inr p' \<and>
         base p' = \<lparr>nameToId = [(''general'', ''0xchannel1'')],
                    idToName = [(''0xchannel1'', ''general'')]\<rparr> \<and>
         storage p' = Some full_store)"
proof -
  let ?b = "\<lparr>nameToId = [(''general'', ''0xchannel1'')], idToName = [(''0xchannel1'', ''general'')]\<rparr>"
  let ?p = "Persistent_new (json_parse_of []) (Some fresh_store) ''sui-messaging-channels''"
  let ?q = "Persistent_new (json_parse_of []) (Some full_store) ''sui-messaging-channels''"
  have bp: "Local_register (base ?p) ''General'' ''0xchannel1'' = Inr ?b" by code_simp
  have bq: "Local_register (base ?q) ''General'' ''0xchannel1'' = Inr ?b" by code_simp
  have sp: "storage ?p = Some fresh_store" by (simp add: Persistent_new_def)
  have sq: "storage ?q = Some full_store" by (simp add: Persistent_new_def)
  from persistent_mutations[of json_text ?p "''General''" "''0xchannel1''",
      THEN conjunct2, THEN conjunct1, rule_format, OF bp]
  obtain p' where p': "Persistent_register json_text ?p ''General'' ''0xchannel1'' = Inr p'"
    "base p' = ?b" "written json_text ?p p'" by blast
  from p'(3) sp have "mirrored json_text p'"
    by (simp add: written_def fresh_store_def)
  with p' have 1: "\<exists>p'. Persistent_register json_text ?p ''General'' ''0xchannel1'' = Inr p' \<and>
         base p' = ?b \<and> mirrored json_text p'" by blast
  from persistent_mutations[of json_text ?q "''General''" "''0xchannel1''",
      THEN conjunct2, THEN conjunct1, rule_format, OF bq]
  obtain q' where q': "Persistent_register json_text ?q ''General'' ''0xchannel1'' = Inr q'"
    "base q' = ?b" "written json_text ?q q'" by blast
  from q'(3) sq have "storage q' = Some full_store"
    by (simp add: written_def full_store_def)
  with q' have 2: "\<exists>p'. Persistent_register json_text ?q ''General'' ''0xchannel1'' = Inr p' \<and>
         base p' = ?b \<and> storage p' = Some full_store" by blast
  from 1 2 show ?thesis by (rule conjI)
qed

theorem clear_leaves_store_stale:
  "mirrored json_text
     \<lparr>base = \<lparr>nameToId = [(''general'', ''0xchannel1'')], idToName = [(''0xchannel1'', ''general'')]\<rparr>,
      storageKey = ''sui-messaging-channels'',
      storage = Some \<lparr>items = [(''sui-messaging-channels'', json_text [(''general'', ''0xchannel1'')])],
                      refuses = (\<lambda>key text. False)\<rparr>\<rparr> \<and>
   \<not> mirrored json_text (Persistent_clear
     \<lparr>base = \<lparr>nameToId = [(''general'', ''0xchannel1'')], idToName = [(''0xchannel1'', ''general'')]\<rparr>,
      storageKey = ''sui-messaging-channels'',
      storage = Some \<lparr>items = [(''sui-messaging-channels'', json_text [(''general'', ''0xchannel1'')])],
                      refuses = (\<lambda>key text. False)\<rparr>\<rparr>)"
  by code_simp

text \<open>
  What \<open>reload\<close> computes. When the store holds a non-empty text under the storage key
  and the text parses, the in-memory registry becomes the import of the parsed snapshot
  into an empty registry, whatever the registry held. When there is no store, no entry
  under the key, an empty text or a text that does not parse, \<open>reload\<close> returns the
  registry as it was.
\<close>

lemma reload_spec:
  "(\<forall>st stored data.
      storage p = Some st \<and> getItem st (storageKey p) = Some stored \<and> stored \<noteq> [] \<and>
      parse stored = Some data \<longrightarrow>
      reload parse p = p\<lparr>base := Local_import (Local_new None) data False\<rparr>) \<and>
   (storage p = None \<or>
    (\<exists>st. storage p = Some st \<and>
       (getItem st (storageKey p) = None \<or> getItem st (storageKey p) = Some [] \<or>
        (\<exists>stored. getItem st (storageKey p) = Some stored \<and> parse stored = None))) \<longrightarrow>
    reload parse p = p)"
  by (auto simp: reload_def Local_import_def Local_new_def split: option.splits)

lemma reload_examples:
  "base (reload (json_parse_of [[(''general'', ''0xchannel1'')]])
     \<lparr>base = Local_new (Some [(''random'', ''0xchannel2'')]),
      storageKey = ''sui-messaging-channels'',
      storage = Some \<lparr>items = [(''sui-messaging-channels'', json_text [(''general'', ''0xchannel1'')])],
                      refuses = (\<lambda>key text. False)\<rparr>\<rparr>) =
     \<lparr>nameToId = [(''general'', ''0xchannel1'')], idToName = [(''0xchannel1'', ''general'')]\<rparr> \<and>
   base (reload (json_parse_of [[(''general'', ''0xchannel1'')]])
     \<lparr>base = Local_new (Some [(''random'', ''0xchannel2'')]),
      storageKey = ''sui-messaging-channels'',
      storage = Some \<lparr>items = [(''sui-messaging-channels'', ''not json'')],
                      refuses = (\<lambda>key text. False)\<rparr>\<rparr>) =
     \<lparr>nameToId = [(''random'', ''0xchannel2'')], idToName = [(''0xchannel2'', ''random'')]\<rparr>"
proof -
  let ?parse = "json_parse_of [[(''general'', ''0xchannel1'')]]"
  let ?st = "\<lparr>items = [(''sui-messaging-channels'', json_text [(''general'', ''0xchannel1'')])],
              refuses = (\<lambda>key text. False)\<rparr>"
  let ?bad = "\<lparr>items = [(''sui-messaging-channels'', ''not json'')], refuses = (\<lambda>key text. False)\<rparr>"
  let ?p = "\<lparr>base = Local_new (Some [(''random'', ''0xchannel2'')]),
             storageKey = ''sui-messaging-channels'', storage = Some ?st\<rparr>"
  let ?q = "\<lparr>base = Local_new (Some [(''random'', ''0xchannel2'')]),
             storageKey = ''sui-messaging-channels'', storage = Some ?bad\<rparr>"
  have g: "getItem ?st (storageKey ?p) = Some (json_text [(''general'', ''0xchannel1'')])"
    by (simp add: getItem_def)
  have ne: "json_text [(''general'', ''0xchannel1'')] \<noteq> []" by code_simp
  have ps: "?parse (json_text [(''general'', ''0xchannel1'')]) = Some [(''general'', ''0xchannel1'')]"
    by code_simp
  have "reload ?parse ?p = ?p\<lparr>base := Local_import (Local_new None) [(''general'', ''0xchannel1'')] False\<rparr>"
    using reload_spec[of ?p ?parse, THEN conjunct1, rule_format,
        of ?st "json_text [(''general'', ''0xchannel1'')]" "[(''general'', ''0xchannel1'')]"]
      g ne ps by simp
  moreover have "Local_import (Local_new None) [(''general'', ''0xchannel1'')] False =
     \<lparr>nameToId = [(''general'', ''0xchannel1'')], idToName = [(''0xchannel1'', ''general'')]\<rparr>"
    by code_simp
  ultimately have 1: "base (reload ?parse ?p) =
     \<lparr>nameToId = [(''general'', ''0xchannel1'')], idToName = [(''0xchannel1'', ''general'')]\<rparr>"
    by simp
  have g2: "getItem ?bad (storageKey ?q) = Some ''not json''" by (simp add: getItem_def)
  have ps2: "?parse ''not json'' = None" by code_simp
  have "reload ?parse ?q = ?q"
    using reload_spec[of ?q ?parse, THEN conjunct2, THEN mp] g2 ps2 by simp
  moreover have "Local_new (Some [(''random'', ''0xchannel2'')]) =
     \<lparr>nameToId = [(''random'', ''0xchannel2'')], idToName = [(''0xchannel2'', ''random'')]\<rparr>"
    by code_simp
  ultimately have 2: "base (reload ?parse ?q) =
     \<lparr>nameToId = [(''random'', ''0xchannel2'')], idToName = [(''0xchannel2'', ''random'')]\<rparr>"
    by simp
  from 1 2 show ?thesis by (rule conjI)
qed

text \<open>
  Claim C4 says that \<open>reload\<close> discards the unsaved in-memory changes in every case, a
  store with no entry under the key counting as no prior data; the docstring of \<open>reload\<close>
  says the same (it reloads, discarding any unsaved changes), and on such a store the constructor
  starts with an empty registry. At this input the registry holds an unsaved entry and
  the store has no entry under the key: \<open>reload\<close> leaves the entry in the registry, where
  the import of no data with \<open>merge = false\<close> gives the empty registry.
\<close>

theorem reload_keeps_unsaved_changes:
  "base (reload (json_parse_of [])
     \<lparr>base = Local_new (Some [(''general'', ''0xchannel1'')]),
      storageKey = ''sui-messaging-channels'', storage = Some fresh_store\<rparr>) =
     \<lparr>nameToId = [(''general'', ''0xchannel1'')], idToName = [(''0xchannel1'', ''general'')]\<rparr> \<and>
   Local_import (Local_new (Some [(''general'', ''0xchannel1'')])) [] False =
     \<lparr>nameToId = [], idToName = []\<rparr> \<and>
   base (reload (json_parse_of [])
     \<lparr>base = Local_new (Some [(''general'', ''0xchannel1'')]),
      storageKey = ''sui-messaging-channels'', storage = Some fresh_store\<rparr>) \<noteq>
     Local_import (Local_new (Some [(''general'', ''0xchannel1'')])) [] False \<and>
   base (Persistent_new (json_parse_of []) (Some fresh_store) ''sui-messaging-channels'') =
     \<lparr>nameToId = [], idToName = []\<rparr>"
  by code_simp

section \<open>Renaming\<close>

lemma lower_char_hash_id: "lower_char CHR ''#'' = CHR ''#''"
  using lower_char_hash[of "CHR ''#''"] by simp

lemma normalize_of_format: "normalizeChannelName (formatChannelName x) = normalizeChannelName x"
proof -
  let ?y = "normalizeChannelName x"
  let ?f = "CHR ''#'' # ?y"
  have low: "toLowerCase ?y = ?y" by (rule normalize_lower)
  have "\<not> is_ws (last ?f)" using normalize_last[of x] not_ws_hash by simp
  then have t: "trim ?f = ?f" using not_ws_hash by (intro trim_id) simp
  have l: "toLowerCase ?f = ?f" using low by (simp add: toLowerCase_def lower_char_hash_id)
  show ?thesis
    unfolding formatChannelName_def
    by (simp add: normalizeChannelName_def[of ?f] t l startsWith_def)
qed

lemma isChannelName_format: "isChannelName (formatChannelName x)"
  by (simp add: isChannelName_def formatChannelName_def startsWith_def)

lemma format_of_format: "formatChannelName (formatChannelName x) = formatChannelName x"
  by (simp add: formatChannelName_def[of "formatChannelName x"] normalize_of_format)
     (simp add: formatChannelName_def)

text \<open>
  Claim C9, as the code has it. Let the id-to-alias map bind an id to a non-empty alias
  \<open>a\<close> that is its own normal form, and let \<open>register\<close> succeed for that id with a name
  whose normalized alias \<open>b\<close> is non-empty and differs from \<open>a\<close>. Then the old binding is
  removed and the new one installed: \<open>reverseLookup\<close> of the id gives the formatted form of
  \<open>b\<close>, and \<open>resolve\<close> of the formatted form of \<open>a\<close> fails with \<open>NameNotFound\<close>.
  A stored alias that is not its own normal form (\<open>#x\<close>, stored for the name \<open>##x\<close>) is
  formatted to a name that resolves another alias (\<open>x\<close>), which may be bound.
\<close>

theorem register_rename:
  "Map_get (idToName r) channelId = Some a \<and> a \<noteq> [] \<and> normalizeChannelName a = a \<and>
   normalizeChannelName name \<noteq> a \<and> normalizeChannelName name \<noteq> [] \<and>
   Local_register r name channelId = Inr r' \<longrightarrow>
     Map_get (nameToId r') a = None \<and>
     Map_get (nameToId r') (normalizeChannelName name) = Some channelId \<and>
     Local_reverseLookup r' channelId = Some (formatChannelName (normalizeChannelName name)) \<and>
     Local_resolve r' (formatChannelName a) = Inl (NameNotFound (formatChannelName a))"
proof (intro impI, elim conjE)
  let ?b = "normalizeChannelName name"
  assume a: "Map_get (idToName r) channelId = Some a" "a \<noteq> []" "normalizeChannelName a = a"
    and b: "?b \<noteq> a" "?b \<noteq> []"
    and reg: "Local_register r name channelId = Inr r'"
  from reg a(1,2) b(1)
  have r': "r' = \<lparr>nameToId = Map_set (Map_delete (nameToId r) a) ?b channelId,
                   idToName = Map_set (idToName r) channelId ?b\<rparr>"
    by (auto simp: Local_register_def Let_def truthy_def text_of_def split: if_splits)
  have 1: "Map_get (nameToId r') a = None"
    using b(1) by (simp add: r' update_conv' delete_conv')
  have 2: "Map_get (nameToId r') ?b = Some channelId"
    by (simp add: r' update_conv')
  have 3: "Local_reverseLookup r' channelId = Some (formatChannelName ?b)"
    using b(2) by (simp add: Local_reverseLookup_def r' update_conv')
  have n: "normalizeChannelName (formatChannelName a) = a"
    using a(3) by (simp add: normalize_of_format)
  have 4: "Local_resolve r' (formatChannelName a) = Inl (NameNotFound (formatChannelName a))"
    using 1 by (simp add: Local_resolve_def isChannelName_format n format_of_format)
  from 1 2 3 4 show "Map_get (nameToId r') a = None \<and>
     Map_get (nameToId r') ?b = Some channelId \<and>
     Local_reverseLookup r' channelId = Some (formatChannelName ?b) \<and>
     Local_resolve r' (formatChannelName a) = Inl (NameNotFound (formatChannelName a))"
    by (intro conjI)
qed

theorem register_rename_witness:
  "Local_register \<lparr>nameToId = [(''general'', ''0xA'')], idToName = [(''0xA'', ''general'')]\<rparr>
     ''main'' ''0xA'' =
     Inr \<lparr>nameToId = [(''main'', ''0xA'')], idToName = [(''0xA'', ''main'')]\<rparr> \<and>
   Local_reverseLookup
     \<lparr>nameToId = [(''main'', ''0xA'')], idToName = [(''0xA'', ''main'')]\<rparr> ''0xA'' = Some ''#main'' \<and>
   Local_resolve
     \<lparr>nameToId = [(''main'', ''0xA'')], idToName = [(''0xA'', ''main'')]\<rparr> ''#general'' =
     Inl (NameNotFound ''#general'')"
proof -
  let ?r = "\<lparr>nameToId = [(''general'', ''0xA'')], idToName = [(''0xA'', ''general'')]\<rparr>"
  let ?r' = "\<lparr>nameToId = [(''main'', ''0xA'')], idToName = [(''0xA'', ''main'')]\<rparr>"
  have h: "Map_get (idToName ?r) ''0xA'' = Some ''general'' \<and> ''general'' \<noteq> [] \<and>
     normalizeChannelName ''general'' = ''general'' \<and>
     normalizeChannelName ''main'' \<noteq> ''general'' \<and> normalizeChannelName ''main'' \<noteq> [] \<and>
     Local_register ?r ''main'' ''0xA'' = Inr ?r'"
    by code_simp
  have f: "formatChannelName (normalizeChannelName ''main'') = ''#main''"
     "formatChannelName ''general'' = ''#general''" by code_simp+
  from register_rename[of ?r "''0xA''" "''general''" "''main''" ?r', THEN mp, OF h]
  show ?thesis using h by (simp only: f simp_thms)
qed

theorem rename_leaves_formatted_alias_resolvable:
  "Local_register empty_registry ''##x'' ''0xA'' =
     Inr \<lparr>nameToId = [(''#x'', ''0xA'')], idToName = [(''0xA'', ''#x'')]\<rparr> \<and>
   Local_register \<lparr>nameToId = [(''#x'', ''0xA'')], idToName = [(''0xA'', ''#x'')]\<rparr> ''x'' ''0xB'' =
     Inr \<lparr>nameToId = [(''#x'', ''0xA''), (''x'', ''0xB'')],
          idToName = [(''0xA'', ''#x''), (''0xB'', ''x'')]\<rparr> \<and>
   Local_register \<lparr>nameToId = [(''#x'', ''0xA''), (''x'', ''0xB'')],
                   idToName = [(''0xA'', ''#x''), (''0xB'', ''x'')]\<rparr> ''main'' ''0xA'' =
     Inr \<lparr>nameToId = [(''x'', ''0xB''), (''main'', ''0xA'')],
          idToName = [(''0xA'', ''main''), (''0xB'', ''x'')]\<rparr> \<and>
   formatChannelName ''#x'' = ''#x'' \<and>
   Local_resolve \<lparr>nameToId = [(''x'', ''0xB''), (''main'', ''0xA'')],
                  idToName = [(''0xA'', ''main''), (''0xB'', ''x'')]\<rparr> ''#x'' = Inr ''0xB''"
  by code_simp

section \<open>Bindings to the empty id\<close>

lemma length_update_fresh:
  "map_of al k = None \<Longrightarrow> length (AList.update k v al) = Suc (length al)"
  by (induction al) (auto split: if_splits)

lemma nameToId_foldl_set_entry:
  "a \<notin> set (map (\<lambda>e. normalizeChannelName (fst e)) data) \<Longrightarrow>
   Map_get (nameToId (foldl set_entry r data)) a = Map_get (nameToId r) a"
proof (induction data arbitrary: r)
  case Nil
  then show ?case by simp
next
  case (Cons e data)
  obtain n i where e: "e = (n, i)" by (cases e)
  from Cons.prems have ne: "normalizeChannelName n \<noteq> a"
    and rest: "a \<notin> set (map (\<lambda>e. normalizeChannelName (fst e)) data)"
    by (auto simp: e)
  have "Map_get (nameToId (foldl set_entry (set_entry r e) data)) a =
        Map_get (nameToId (set_entry r e)) a"
    by (rule Cons.IH[OF rest])
  also have "\<dots> = Map_get (nameToId r) a"
    using ne by (simp add: set_entry_def e Let_def update_conv')
  finally show ?case by simp
qed

lemma rename_empty_id:
  assumes i: "Map_get (idToName r) [] = Some a" and a: "a \<noteq> []"
    and ba: "normalizeChannelName other \<noteq> a"
    and reg: "Local_register r other [] = Inr r'"
  shows "Map_get (nameToId r') a = None \<and> Map_get (nameToId r') (normalizeChannelName other) = Some []"
proof -
  let ?b = "normalizeChannelName other"
  from reg i a ba
  have r': "r' = \<lparr>nameToId = Map_set (Map_delete (nameToId r) a) ?b [],
                   idToName = Map_set (idToName r) [] ?b\<rparr>"
    by (auto simp: Local_register_def Let_def truthy_def text_of_def split: if_splits)
  show ?thesis
    using ba by (simp add: r' update_conv' delete_conv')
qed

text \<open>
  Claim C10, as the code has it. Registering the empty id for an alias that is not bound,
  while no alias is bound to the empty id, succeeds, adds one entry and binds the alias
  to the empty id. While an alias is bound to the empty id, \<open>resolve\<close> of a channel name
  with that alias fails with \<open>NameNotFound\<close> though the entry is in the alias map, and
  \<open>unregister\<close> of the alias leaves the registry as it is: both test the bound id for
  truthiness. The entry is removed by \<open>clear\<close>, by a non-merging \<open>import\<close> of data without
  the alias, and also by registering another alias for the empty id, which renames it.
\<close>

theorem empty_id_binding:
  "(Map_get (nameToId r) (normalizeChannelName name) = None \<and> Map_get (idToName r) [] = None \<longrightarrow>
      (\<exists>r'. Local_register r name [] = Inr r' \<and> Local_size r' = Suc (Local_size r) \<and>
            Map_get (nameToId r') (normalizeChannelName name) = Some [])) \<and>
   (Map_get (nameToId r) (normalizeChannelName name) = Some [] \<longrightarrow>
      (isChannelName name \<longrightarrow>
         Local_resolve r name = Inl (NameNotFound (formatChannelName name))) \<and>
      Local_unregister r name = r \<and>
      Map_get (nameToId (Local_clear r)) (normalizeChannelName name) = None \<and>
      (normalizeChannelName name \<notin> set (map (\<lambda>e. normalizeChannelName (fst e)) data) \<longrightarrow>
         Map_get (nameToId (Local_import r data False)) (normalizeChannelName name) = None) \<and>
      (\<forall>other r'. Map_get (idToName r) [] = Some (normalizeChannelName name) \<and>
         normalizeChannelName name \<noteq> [] \<and>
         normalizeChannelName other \<noteq> normalizeChannelName name \<and>
         Local_register r other [] = Inr r' \<longrightarrow>
         Map_get (nameToId r') (normalizeChannelName name) = None \<and>
         Map_get (nameToId r') (normalizeChannelName other) = Some []))"
proof (intro conjI impI allI)
  let ?a = "normalizeChannelName name"
  assume "Map_get (nameToId r) ?a = None \<and> Map_get (idToName r) [] = None"
  then have f: "Map_get (nameToId r) ?a = None" and g: "Map_get (idToName r) [] = None" by auto
  let ?r' = "\<lparr>nameToId = Map_set (nameToId r) ?a [], idToName = Map_set (idToName r) [] ?a\<rparr>"
  have "Local_register r name [] = Inr ?r'"
    using f g by (simp add: Local_register_def Let_def truthy_def)
  moreover have "Local_size ?r' = Suc (Local_size r)"
    using f by (simp add: Local_size_def length_update_fresh)
  moreover have "Map_get (nameToId ?r') ?a = Some []" by (simp add: update_conv')
  ultimately show "\<exists>r'. Local_register r name [] = Inr r' \<and> Local_size r' = Suc (Local_size r) \<and>
            Map_get (nameToId r') ?a = Some []" by blast
next
  assume "Map_get (nameToId r) (normalizeChannelName name) = Some []" "isChannelName name"
  then show "Local_resolve r name = Inl (NameNotFound (formatChannelName name))"
    by (simp add: Local_resolve_def)
next
  assume "Map_get (nameToId r) (normalizeChannelName name) = Some []"
  then show "Local_unregister r name = r"
    by (simp add: Local_unregister_def)
next
  show "Map_get (nameToId (Local_clear r)) (normalizeChannelName name) = None"
    by (simp add: Local_clear_def empty_registry_def)
next
  assume "normalizeChannelName name \<notin> set (map (\<lambda>e. normalizeChannelName (fst e)) data)"
  from nameToId_foldl_set_entry[OF this, of empty_registry]
  show "Map_get (nameToId (Local_import r data False)) (normalizeChannelName name) = None"
    by (simp add: Local_import_def empty_registry_def)
next
  fix other r'
  assume "Map_get (idToName r) [] = Some (normalizeChannelName name) \<and>
         normalizeChannelName name \<noteq> [] \<and>
         normalizeChannelName other \<noteq> normalizeChannelName name \<and>
         Local_register r other [] = Inr r'"
  then show "Map_get (nameToId r') (normalizeChannelName name) = None"
    using rename_empty_id by blast
next
  fix other r'
  assume "Map_get (idToName r) [] = Some (normalizeChannelName name) \<and>
         normalizeChannelName name \<noteq> [] \<and>
         normalizeChannelName other \<noteq> normalizeChannelName name \<and>
         Local_register r other [] = Inr r'"
  then show "Map_get (nameToId r') (normalizeChannelName other) = Some []"
    using rename_empty_id by blast
qed

theorem empty_id_binding_witness:
  "Local_register empty_registry ''Ghost'' [] =
     Inr \<lparr>nameToId = [(''ghost'', [])], idToName = [([], ''ghost'')]\<rparr> \<and>
   Local_size \<lparr>nameToId = [(''ghost'', [])], idToName = [([], ''ghost'')]\<rparr> = 1 \<and>
   Local_resolve \<lparr>nameToId = [(''ghost'', [])], idToName = [([], ''ghost'')]\<rparr> ''#ghost'' =
     Inl (NameNotFound ''#ghost'') \<and>
   Local_unregister \<lparr>nameToId = [(''ghost'', [])], idToName = [([], ''ghost'')]\<rparr> ''#ghost'' =
     \<lparr>nameToId = [(''ghost'', [])], idToName = [([], ''ghost'')]\<rparr> \<and>
   Map_get (nameToId (Local_import \<lparr>nameToId = [(''ghost'', [])], idToName = [([], ''ghost'')]\<rparr>
     [(''general'', ''0xchannel1'')] False)) ''ghost'' = None \<and>
   Local_register \<lparr>nameToId = [(''ghost'', [])], idToName = [([], ''ghost'')]\<rparr> ''spirit'' [] =
     Inr \<lparr>nameToId = [(''spirit'', [])], idToName = [([], ''spirit'')]\<rparr> \<and>
   Map_get (nameToId \<lparr>nameToId = [(''spirit'', [])], idToName = [([], ''spirit'')]\<rparr>) ''ghost'' = None"
proof -
  let ?r = "\<lparr>nameToId = [(''ghost'', [])], idToName = [([], ''ghost'')]\<rparr>"
  have n: "normalizeChannelName ''Ghost'' = ''ghost''" "normalizeChannelName ''#ghost'' = ''ghost''"
    "formatChannelName ''#ghost'' = ''#ghost''" by code_simp+
  have h0: "Map_get (nameToId empty_registry) (normalizeChannelName ''Ghost'') = None \<and>
            Map_get (idToName empty_registry) [] = None"
    by (simp add: empty_registry_def)
  from empty_id_binding[of empty_registry "''Ghost''", THEN conjunct1, THEN mp, OF h0]
  obtain r' where r': "Local_register empty_registry ''Ghost'' [] = Inr r'"
    "Local_size r' = Suc (Local_size empty_registry)" by blast
  have e: "Local_register empty_registry ''Ghost'' [] = Inr ?r" by code_simp
  with r' have 1: "Local_size ?r = 1" by (simp add: Local_size_def empty_registry_def)
  have h1: "Map_get (nameToId ?r) (normalizeChannelName ''#ghost'') = Some []"
    by (simp add: n)
  have c: "isChannelName ''#ghost''" by code_simp
  have d: "normalizeChannelName ''#ghost'' \<notin>
      set (map (\<lambda>e. normalizeChannelName (fst e)) [(''general'', ''0xchannel1'')])"
    by code_simp
  note s = empty_id_binding[of ?r "''#ghost''" "[(''general'', ''0xchannel1'')]",
      THEN conjunct2, THEN mp, OF h1]
  have 2: "Local_resolve ?r ''#ghost'' = Inl (NameNotFound ''#ghost'')"
    using s[THEN conjunct1, THEN mp, OF c] by (simp only: n)
  have 3: "Local_unregister ?r ''#ghost'' = ?r"
    using s[THEN conjunct2, THEN conjunct1] .
  have 4: "Map_get (nameToId (Local_import ?r [(''general'', ''0xchannel1'')] False)) ''ghost'' = None"
    using s[THEN conjunct2, THEN conjunct2, THEN conjunct2, THEN conjunct1, THEN mp, OF d]
    by (simp only: n)
  let ?r2 = "\<lparr>nameToId = [(''spirit'', [])], idToName = [([], ''spirit'')]\<rparr>"
  have 5: "Local_register ?r ''spirit'' [] = Inr ?r2" by code_simp
  have h5: "Map_get (idToName ?r) [] = Some (normalizeChannelName ''#ghost'') \<and>
      normalizeChannelName ''#ghost'' \<noteq> [] \<and>
      normalizeChannelName ''spirit'' \<noteq> normalizeChannelName ''#ghost'' \<and>
      Local_register ?r ''spirit'' [] = Inr ?r2"
    by code_simp
  have 6: "Map_get (nameToId ?r2) ''ghost'' = None"
    using s[THEN conjunct2, THEN conjunct2, THEN conjunct2, THEN conjunct2, THEN spec, THEN spec,
        THEN mp, OF h5, THEN conjunct1]
    by (simp only: n)
  from e 1 2 3 4 5 6 show ?thesis by (intro conjI)
qed

theorem rename_removes_empty_id_entry:
  "Local_register empty_registry ''a'' [] =
     Inr \<lparr>nameToId = [(''a'', [])], idToName = [([], ''a'')]\<rparr> \<and>
   Local_register \<lparr>nameToId = [(''a'', [])], idToName = [([], ''a'')]\<rparr> ''b'' [] =
     Inr \<lparr>nameToId = [(''b'', [])], idToName = [([], ''b'')]\<rparr> \<and>
   Map_get (nameToId \<lparr>nameToId = [(''b'', [])], idToName = [([], ''b'')]\<rparr>) ''a'' = None"
  by code_simp

section \<open>The invariant on plain sequences\<close>

text \<open>
  \<open>register\<close> of a non-empty alias and a non-empty id, \<open>unregister\<close> and \<open>clear\<close> keep a
  registry consistent, and the two maps of a consistent registry are exact inverses.
\<close>

lemma list_all_map_of:
  "distinct (map fst al) \<Longrightarrow>
   list_all (\<lambda>(k, v). P k v) al \<longleftrightarrow> (\<forall>k v. map_of al k = Some v \<longrightarrow> P k v)"
  by (auto simp: list_all_iff)

lemma consistent_iff:
  "consistent r \<longleftrightarrow>
     distinct (map fst (nameToId r)) \<and> distinct (map fst (idToName r)) \<and>
     paired (map_of (nameToId r)) (map_of (idToName r))"
proof (cases "distinct (map fst (nameToId r)) \<and> distinct (map fst (idToName r))")
  case True
  then have dn: "distinct (map fst (nameToId r))" and di: "distinct (map fst (idToName r))"
    by blast+
  note A = list_all_map_of[OF dn,
      of "\<lambda>alias channelId. alias \<noteq> [] \<and> channelId \<noteq> [] \<and>
            Map_get (idToName r) channelId = Some alias"]
  note B = list_all_map_of[OF di,
      of "\<lambda>channelId alias. Map_get (nameToId r) alias = Some channelId"]
  show ?thesis
    unfolding consistent_def paired_def A B using True by blast
next
  case False
  then show ?thesis unfolding consistent_def by blast
qed

lemma distinct_keys_length: "distinct (map fst al) \<Longrightarrow> length al = card (dom (map_of al))"
  by (metis distinct_card dom_map_of_conv_image_fst length_map list.set_map)

lemma paired_card:
  assumes "paired M I" and "finite (dom M)" and "finite (dom I)"
  shows "card (dom M) = card (dom I)"
proof -
  from assms(1) have mi: "\<And>a i. M a = Some i \<Longrightarrow> I i = Some a"
    and im: "\<And>i a. I i = Some a \<Longrightarrow> M a = Some i"
    unfolding paired_def by blast+
  have "inj_on (\<lambda>a. the (M a)) (dom M)"
    by (rule inj_onI) (metis domD mi option.sel)
  moreover have "(\<lambda>a. the (M a)) ` dom M \<subseteq> dom I"
    using mi by fastforce
  ultimately have 1: "card (dom M) \<le> card (dom I)"
    using assms(3) by (metis card_inj_on_le)
  have "inj_on (\<lambda>i. the (I i)) (dom I)"
    by (rule inj_onI) (metis domD im option.sel)
  moreover have "(\<lambda>i. the (I i)) ` dom I \<subseteq> dom M"
    using im by fastforce
  ultimately have 2: "card (dom I) \<le> card (dom M)"
    using assms(2) by (metis card_inj_on_le)
  from 1 2 show ?thesis by simp
qed

lemma consistent_inverse_maps:
  assumes "consistent r"
  shows "inverse_maps r"
proof -
  from assms have dn: "distinct (map fst (nameToId r))" and di: "distinct (map fst (idToName r))"
    and p: "paired (map_of (nameToId r)) (map_of (idToName r))"
    unfolding consistent_iff by blast+
  have "card (dom (map_of (nameToId r))) = card (dom (map_of (idToName r)))"
    using p by (rule paired_card) (simp_all add: finite_dom_map_of)
  then have "length (nameToId r) = length (idToName r)"
    by (simp only: distinct_keys_length[OF dn] distinct_keys_length[OF di])
  moreover have "list_all (\<lambda>(alias, channelId). Map_get (idToName r) channelId = Some alias)
      (nameToId r)"
    unfolding list_all_map_of[OF dn, of "\<lambda>alias channelId. Map_get (idToName r) channelId = Some alias"]
    using p unfolding paired_def by blast
  ultimately show ?thesis unfolding inverse_maps_def by blast
qed

lemma consistent_empty: "consistent empty_registry"
  by (simp add: consistent_def empty_registry_def)

lemma consistent_clear: "consistent (Local_clear r)"
  by (simp add: Local_clear_def consistent_empty)

lemma pairedI:
  assumes "\<And>a i. M a = Some i \<Longrightarrow> a \<noteq> [] \<and> i \<noteq> [] \<and> I i = Some a"
    and "\<And>i a. I i = Some a \<Longrightarrow> M a = Some i"
  shows "paired M I"
  using assms unfolding paired_def by blast

lemma pairedD1: "paired M I \<Longrightarrow> M a = Some i \<Longrightarrow> a \<noteq> [] \<and> i \<noteq> [] \<and> I i = Some a"
  unfolding paired_def by blast

lemma pairedD2: "paired M I \<Longrightarrow> I i = Some a \<Longrightarrow> M a = Some i"
  unfolding paired_def by blast

lemma paired_delete:
  assumes p: "paired M I" and ma: "M a = Some i"
  shows "paired (M(a := None)) (I(i := None))"
proof (rule pairedI)
  from pairedD1[OF p ma] have ia: "I i = Some a" by simp
  fix x y assume "(M(a := None)) x = Some y"
  then have xa: "x \<noteq> a" and mx: "M x = Some y" by (auto split: if_splits)
  from pairedD1[OF p mx] have *: "x \<noteq> []" "y \<noteq> []" "I y = Some x" by simp_all
  have "y \<noteq> i" using * ia xa by auto
  then show "x \<noteq> [] \<and> y \<noteq> [] \<and> (I(i := None)) y = Some x" using * by simp
next
  fix y x assume "(I(i := None)) y = Some x"
  then have yi: "y \<noteq> i" and iy: "I y = Some x" by (auto split: if_splits)
  from pairedD2[OF p iy] have mx: "M x = Some y" .
  have "x \<noteq> a" using mx ma yi by auto
  then show "(M(a := None)) x = Some y" using mx by simp
qed

lemma paired_update_fresh:
  assumes p: "paired M I" and mb: "M b = None" and ii: "I i = None"
    and b: "b \<noteq> []" and i: "i \<noteq> []"
  shows "paired (M(b \<mapsto> i)) (I(i \<mapsto> b))"
proof (rule pairedI)
  fix x y assume h: "(M(b \<mapsto> i)) x = Some y"
  show "x \<noteq> [] \<and> y \<noteq> [] \<and> (I(i \<mapsto> b)) y = Some x"
  proof (cases "x = b")
    case True
    with h have "y = i" by simp
    with True b i show ?thesis by simp
  next
    case False
    with h have mx: "M x = Some y" by simp
    from pairedD1[OF p mx] have *: "x \<noteq> []" "y \<noteq> []" "I y = Some x" by simp_all
    have "y \<noteq> i" using * ii by auto
    then show ?thesis using * by simp
  qed
next
  fix y x assume h: "(I(i \<mapsto> b)) y = Some x"
  show "(M(b \<mapsto> i)) x = Some y"
  proof (cases "y = i")
    case True
    with h have "x = b" by simp
    with True show ?thesis by simp
  next
    case False
    with h have iy: "I y = Some x" by simp
    from pairedD2[OF p iy] have mx: "M x = Some y" .
    have "x \<noteq> b" using mx mb by auto
    then show ?thesis using mx by simp
  qed
qed

lemma paired_rename:
  assumes p: "paired M I" and mb: "M b = None" and ia: "I i = Some a" and b: "b \<noteq> []"
  shows "paired ((M(a := None))(b \<mapsto> i)) (I(i \<mapsto> b))"
proof -
  from pairedD2[OF p ia] have ma: "M a = Some i" .
  from pairedD1[OF p ma] have i: "i \<noteq> []" by simp
  have q: "paired (M(a := None)) (I(i := None))" by (rule paired_delete[OF p ma])
  have "paired ((M(a := None))(b \<mapsto> i)) ((I(i := None))(i \<mapsto> b))"
    by (rule paired_update_fresh[OF q _ _ b i]) (simp_all add: mb)
  then show ?thesis by simp
qed

lemma consistent_unregister:
  assumes "consistent r"
  shows "consistent (Local_unregister r name)"
proof (cases "Map_get (nameToId r) (normalizeChannelName name)")
  case None
  then show ?thesis using assms by (simp add: Local_unregister_def)
next
  case (Some i)
  let ?a = "normalizeChannelName name"
  from assms have dn: "distinct (map fst (nameToId r))" and di: "distinct (map fst (idToName r))"
    and p: "paired (map_of (nameToId r)) (map_of (idToName r))"
    unfolding consistent_iff by blast+
  from pairedD1[OF p Some] have i: "i \<noteq> []" by simp
  have u: "Local_unregister r name =
      \<lparr>nameToId = Map_delete (nameToId r) ?a, idToName = Map_delete (idToName r) i\<rparr>"
    using Some i by (simp add: Local_unregister_def)
  have "paired (map_of (Map_delete (nameToId r) ?a)) (map_of (Map_delete (idToName r) i))"
    unfolding delete_conv' by (rule paired_delete[OF p Some])
  then show ?thesis
    unfolding u consistent_iff using dn di by (simp add: distinct_delete)
qed

lemma consistent_register:
  assumes r: "consistent r" and b: "normalizeChannelName name \<noteq> []" and i: "channelId \<noteq> []"
    and reg: "Local_register r name channelId = Inr r'"
  shows "consistent r'"
proof -
  let ?b = "normalizeChannelName name"
  from r have dn: "distinct (map fst (nameToId r))" and di: "distinct (map fst (idToName r))"
    and p: "paired (map_of (nameToId r)) (map_of (idToName r))"
    unfolding consistent_iff by blast+
  have free: "Map_get (nameToId r) ?b = None \<or> Map_get (nameToId r) ?b = Some channelId"
  proof (cases "Map_get (nameToId r) ?b")
    case None then show ?thesis by simp
  next
    case (Some x)
    from pairedD1[OF p Some] have "x \<noteq> []" by simp
    with reg Some show ?thesis
      by (auto simp: Local_register_def Let_def truthy_def split: if_splits)
  qed
  show ?thesis
  proof (cases "Map_get (idToName r) channelId")
    case None
    with reg have r': "r' = \<lparr>nameToId = Map_set (nameToId r) ?b channelId,
                             idToName = Map_set (idToName r) channelId ?b\<rparr>"
      by (auto simp: Local_register_def Let_def truthy_def split: if_splits)
    have f: "Map_get (nameToId r) ?b = None"
      using free None pairedD1[OF p] by fastforce
    have "paired (map_of (Map_set (nameToId r) ?b channelId))
                 (map_of (Map_set (idToName r) channelId ?b))"
      unfolding update_conv' by (rule paired_update_fresh[OF p f None b i])
    then show ?thesis
      unfolding r' consistent_iff using dn di by (simp add: distinct_update)
  next
    case (Some a)
    from pairedD2[OF p Some] have ma: "Map_get (nameToId r) a = Some channelId" .
    from pairedD1[OF p ma] have a: "a \<noteq> []" by simp
    show ?thesis
    proof (cases "a = ?b")
      case True
      with Some reg ma have "r' = r"
        by (auto simp: Local_register_def Let_def truthy_def update_triv split: if_splits)
      then show ?thesis using r by simp
    next
      case False
      from Some reg False a
      have r': "r' = \<lparr>nameToId = Map_set (Map_delete (nameToId r) a) ?b channelId,
                       idToName = Map_set (idToName r) channelId ?b\<rparr>"
        by (auto simp: Local_register_def Let_def truthy_def text_of_def split: if_splits)
      have f: "Map_get (nameToId r) ?b = None"
      proof (rule ccontr)
        assume "Map_get (nameToId r) ?b \<noteq> None"
        with free have "Map_get (nameToId r) ?b = Some channelId" by blast
        from pairedD1[OF p this] Some False show False by simp
      qed
      have "paired (map_of (Map_set (Map_delete (nameToId r) a) ?b channelId))
                   (map_of (Map_set (idToName r) channelId ?b))"
        unfolding update_conv' delete_conv' by (rule paired_rename[OF p f Some b])
      then show ?thesis
        unfolding r' consistent_iff using dn di by (simp add: distinct_update distinct_delete)
    qed
  qed
qed

lemma consistent_apply_operation:
  assumes "consistent r" and "plain op"
  shows "consistent (apply_operation r op)"
proof (cases op)
  case (Register name channelId)
  with assms(2) have ne: "normalizeChannelName name \<noteq> []" "channelId \<noteq> []"
    by (simp_all add: plain_def)
  show ?thesis
  proof (cases "Local_register r name channelId")
    case (Inl e)
    then show ?thesis using assms(1) Register by (simp add: apply_operation_def)
  next
    case (Inr r')
    from consistent_register[OF assms(1) ne Inr] show ?thesis
      using Register Inr by (simp add: apply_operation_def)
  qed
next
  case (Unregister name)
  then show ?thesis using consistent_unregister[OF assms(1)] by (simp add: apply_operation_def)
next
  case (Import data merge)
  with assms(2) show ?thesis by (simp add: plain_def)
next
  case Clear
  then show ?thesis using consistent_clear by (simp add: apply_operation_def)
qed

lemma consistent_foldl:
  "consistent r \<Longrightarrow> list_all plain ops \<Longrightarrow> consistent (foldl apply_operation r ops)"
  by (induction ops arbitrary: r) (simp_all add: consistent_apply_operation)

lemma inverse_maps_plain_run:
  assumes "list_all plain ops"
  shows "inverse_maps (run None ops)"
proof -
  have "consistent (Local_new None)" by (simp add: Local_new_def consistent_empty)
  from consistent_foldl[OF this assms] show ?thesis
    unfolding run_def by (rule consistent_inverse_maps)
qed

section \<open>Registration and resolution\<close>

lemma Local_register_conflict_iff:
  "Local_register r name channelId = Inl e \<longleftrightarrow>
     (\<exists>x. Map_get (nameToId r) (normalizeChannelName name) = Some x \<and> x \<noteq> [] \<and>
          x \<noteq> channelId \<and> e = AliasConflict (formatChannelName name) x)"
  by (cases "Map_get (nameToId r) (normalizeChannelName name)")
     (auto simp: Local_register_def Let_def truthy_def text_of_def)

lemma Local_register_same_id:
  assumes "Map_get (nameToId r) (normalizeChannelName name) = Some channelId"
    and "Map_get (idToName r) channelId = Some (normalizeChannelName name)"
  shows "Local_register r name channelId = Inr r"
  using assms by (simp add: Local_register_def Let_def truthy_def update_triv)

lemma Local_resolve_bound:
  assumes "isChannelName input"
    and "Map_get (nameToId r) (normalizeChannelName input) = Some channelId"
    and "channelId \<noteq> []"
  shows "Local_resolve r input = Inr channelId"
  using assms by (simp add: Local_resolve_def)

lemma Local_resolve_unbound:
  assumes "isChannelName input"
    and "Map_get (nameToId r) (normalizeChannelName input) = None"
  shows "Local_resolve r input = Inl (NameNotFound (formatChannelName input))"
  using assms by (simp add: Local_resolve_def)

lemma Local_resolve_passes: "\<not> isChannelName input \<Longrightarrow> Local_resolve r input = Inr input"
  by (simp add: Local_resolve_def)

text \<open>
  On a consistent registry \<open>register\<close> fails exactly when the alias is bound to another id,
  registering a bound alias again with its id changes nothing, and \<open>resolve\<close> of a channel
  name gives the bound id or fails when there is none.
\<close>

lemma consistent_register_conflict_iff:
  assumes "consistent r"
  shows "Local_register r name channelId = Inl e \<longleftrightarrow>
     (\<exists>x. Map_get (nameToId r) (normalizeChannelName name) = Some x \<and> x \<noteq> channelId \<and>
          e = AliasConflict (formatChannelName name) x)"
proof -
  from assms have p: "paired (map_of (nameToId r)) (map_of (idToName r))"
    unfolding consistent_iff by blast
  have "\<And>x. Map_get (nameToId r) (normalizeChannelName name) = Some x \<Longrightarrow> x \<noteq> []"
    using pairedD1[OF p] by blast
  then show ?thesis unfolding Local_register_conflict_iff by blast
qed

lemma consistent_register_same_id:
  assumes "consistent r"
    and "Map_get (nameToId r) (normalizeChannelName name) = Some channelId"
  shows "Local_register r name channelId = Inr r"
proof -
  from assms(1) have p: "paired (map_of (nameToId r)) (map_of (idToName r))"
    unfolding consistent_iff by blast
  from pairedD1[OF p assms(2)]
  have "Map_get (idToName r) channelId = Some (normalizeChannelName name)" by simp
  with assms(2) show ?thesis by (rule Local_register_same_id)
qed

lemma consistent_resolve:
  assumes "consistent r" and "isChannelName input"
  shows "Local_resolve r input =
     (case Map_get (nameToId r) (normalizeChannelName input) of
        None \<Rightarrow> Inl (NameNotFound (formatChannelName input))
      | Some channelId \<Rightarrow> Inr channelId)"
proof -
  from assms(1) have p: "paired (map_of (nameToId r)) (map_of (idToName r))"
    unfolding consistent_iff by blast
  show ?thesis
    using assms(2) pairedD1[OF p]
    by (auto simp: Local_resolve_def split: option.splits)
qed

text \<open>
  Claim C1 says that the alias map and the id map are exact inverses after every sequence
  of operations, initial mappings included. At these inputs the code leaves them
  otherwise. An \<open>import\<close> of two aliases for one id sets both aliases and keeps one reverse
  entry (sizes 2 and 1), and so does the constructor; a merging \<open>import\<close> that rebinds a
  registered alias keeps the reverse entry of the id it had (sizes 1 and 2). And with
  \<open>register\<close> alone: the name \<open>#\<close> has the empty alias, which the rename step of a later
  \<open>register\<close> for the same id takes for no alias and does not delete.
\<close>

theorem import_breaks_inverse_maps:
  "run None [Import [(''a'', ''0x1''), (''b'', ''0x1'')] True] =
     \<lparr>nameToId = [(''a'', ''0x1''), (''b'', ''0x1'')], idToName = [(''0x1'', ''b'')]\<rparr> \<and>
   inverse_maps (run None [Import [(''a'', ''0x1''), (''b'', ''0x1'')] True]) = False \<and>
   run None [Register ''a'' ''0x2'', Import [(''a'', ''0x1'')] True] =
     \<lparr>nameToId = [(''a'', ''0x1'')], idToName = [(''0x2'', ''a''), (''0x1'', ''a'')]\<rparr> \<and>
   inverse_maps (run None [Register ''a'' ''0x2'', Import [(''a'', ''0x1'')] True]) = False \<and>
   run (Some [(''a'', ''0x1''), (''b'', ''0x1'')]) [] =
     \<lparr>nameToId = [(''a'', ''0x1''), (''b'', ''0x1'')], idToName = [(''0x1'', ''b'')]\<rparr> \<and>
   inverse_maps (run (Some [(''a'', ''0x1''), (''b'', ''0x1'')]) []) = False \<and>
   run None [Register ''#'' ''0x1'', Register ''b'' ''0x1''] =
     \<lparr>nameToId = [([], ''0x1''), (''b'', ''0x1'')], idToName = [(''0x1'', ''b'')]\<rparr> \<and>
   inverse_maps (run None [Register ''#'' ''0x1'', Register ''b'' ''0x1'']) = False"
  by code_simp

text \<open>
  Claim C5 says that \<open>register\<close> fails with \<open>AliasConflict\<close> exactly when the normalized alias
  is bound to another id. At this input the alias \<open>a\<close> is bound to the empty id, and
  \<open>register\<close> of \<open>a\<close> with the id \<open>0x1\<close> succeeds and overwrites the binding, leaving the
  reverse entry of the empty id behind.
\<close>

theorem register_overwrites_empty_id:
  "Local_register empty_registry ''a'' [] =
     Inr \<lparr>nameToId = [(''a'', [])], idToName = [([], ''a'')]\<rparr> \<and>
   Map_get (nameToId \<lparr>nameToId = [(''a'', [])], idToName = [([], ''a'')]\<rparr>)
     (normalizeChannelName ''a'') = Some [] \<and>
   Local_register \<lparr>nameToId = [(''a'', [])], idToName = [([], ''a'')]\<rparr> ''a'' ''0x1'' =
     Inr \<lparr>nameToId = [(''a'', ''0x1'')], idToName = [([], ''a''), (''0x1'', ''a'')]\<rparr>"
  by code_simp

text \<open>
  Claim C6 says that \<open>resolve\<close> of a channel name gives the id bound to its normalized
  alias and fails only when the alias is absent. At this input the alias \<open>lobby\<close> is bound
  (to the empty id) and \<open>resolve\<close> fails with \<open>NameNotFound\<close>.
\<close>

theorem resolve_misses_empty_id:
  "Local_register empty_registry ''lobby'' [] =
     Inr \<lparr>nameToId = [(''lobby'', [])], idToName = [([], ''lobby'')]\<rparr> \<and>
   isChannelName ''lobby'' \<and>
   Map_get (nameToId \<lparr>nameToId = [(''lobby'', [])], idToName = [([], ''lobby'')]\<rparr>)
     (normalizeChannelName ''lobby'') = Some [] \<and>
   Local_resolve \<lparr>nameToId = [(''lobby'', [])], idToName = [([], ''lobby'')]\<rparr> ''lobby'' =
     Inl (NameNotFound ''#lobby'')"
  by code_simp

end
